theory Spec2Isabelle
  imports Main
begin

section \<open>JavaScript values\<close>

text \<open>
  The values that flow through the library: interface descriptors, candidate objects,
  service instances, message payloads and thrown values are all JavaScript values.

  Conventions of the representation.
  \<^item> The property list of an object holds the properties a read \<open>obj[name]\<close> finds, with
    distinct names, in the order \<open>Object.keys\<close> enumerates them. Members that the
    built-in prototypes contribute (such as \<open>toString\<close>) are not represented: a read of a
    name that is not listed gives \<open>undefined\<close>.
  \<^item> \<open>JEmitter i ps\<close> is an object that is an instance of \<open>EventEmitter\<close>; \<open>i\<close> is its
    identity.
  \<^item> \<open>JFun src\<close> is a function whose body is not part of the model; \<open>src\<close> is the text
    \<open>toString\<close> returns for it. It carries no properties of its own.
  \<^item> \<open>JPred tests\<close> is the closure \<open>iftest\<close> that \<open>compile\<close> in \<open>lib/interface-def.js\<close>
    returns, with the list \<open>tests\<close> it captured: one entry per property, the property name
    and the type test \<open>isa\<close> looked up for it.
  \<^item> Numbers are integers; the library only asks for their type and their truthiness.
\<close>

datatype kind = KFunction | KObject | KArray | KString | KNumber | KBoolean

datatype jsval =
    JUndefined
  | JNull
  | JBool bool
  | JNum int
  | JStr string
  | JFun string
  | JArr "jsval list"
  | JObj "(string \<times> jsval) list"
  | JEmitter nat "(string \<times> jsval) list"
  | JPred "(string \<times> isa) list"
and isa = IsaKind kind | IsaNested jsval

text \<open>
  Exceptions. \<open>Error msg\<close> and \<open>TypeError msg\<close> are thrown by the library's own
  \<open>throw new Error(msg)\<close> and \<open>throw new TypeError(msg)\<close>; \<open>AssertionError msg\<close> is
  thrown by a failing \<open>assert(value, msg)\<close> of Node's \<open>assert\<close> module. \<open>EngineTypeError\<close> is the
  \<open>TypeError\<close> the runtime raises when a property of \<open>null\<close> or \<open>undefined\<close> is read or
  a value that is not a function is called; \<open>EngineReferenceError x\<close> is the
  \<open>ReferenceError\<close> the runtime raises when the undeclared identifier \<open>x\<close> is evaluated.
  \<open>OpaqueCall src\<close> marks a call of a function whose body is outside the model.
\<close>

datatype error =
    Error string
  | TypeError string
  | AssertionError string
  | EngineTypeError
  | EngineReferenceError string
  | OpaqueCall string

definition quote :: "string \<Rightarrow> string" where
  "quote s = CHR 0x27 # s @ [CHR 0x27]"

fun show_nat :: "nat \<Rightarrow> string" where
  "show_nat n =
     (if n < 10 then [''0123456789'' ! n]
      else show_nat (n div 10) @ [''0123456789'' ! (n mod 10)])"

declare show_nat.simps [simp del]

definition show_int :: "int \<Rightarrow> string" where
  "show_int n = (if n < 0 then CHR ''-'' # show_nat (nat (- n)) else show_nat (nat n))"

definition digit_of :: "char \<Rightarrow> nat option" where
  "digit_of c = map_of
     [(CHR ''0'', 0), (CHR ''1'', 1), (CHR ''2'', 2), (CHR ''3'', 3), (CHR ''4'', 4),
      (CHR ''5'', 5), (CHR ''6'', 6), (CHR ''7'', 7), (CHR ''8'', 8), (CHR ''9'', 9)] c"

fun decimal :: "nat \<Rightarrow> string \<Rightarrow> nat option" where
  "decimal acc [] = Some acc"
| "decimal acc (c # cs) =
     (case digit_of c of None \<Rightarrow> None | Some d \<Rightarrow> decimal (10 * acc + d) cs)"

text \<open>
  A property name is an array index when it is the canonical decimal form of an integer
  below \<open>2^32 - 1\<close>.
\<close>

definition array_index :: "string \<Rightarrow> nat option" where
  "array_index s =
     (if s = [] \<or> (hd s = CHR ''0'' \<and> s \<noteq> ''0'') then None
      else (case decimal 0 s of
              None \<Rightarrow> None
            | Some n \<Rightarrow> if n < 4294967295 then Some n else None))"

fun typeof :: "jsval \<Rightarrow> string" where
  "typeof JUndefined = ''undefined''"
| "typeof JNull = ''object''"
| "typeof (JBool b) = ''boolean''"
| "typeof (JNum n) = ''number''"
| "typeof (JStr s) = ''string''"
| "typeof (JFun src) = ''function''"
| "typeof (JArr xs) = ''object''"
| "typeof (JObj ps) = ''object''"
| "typeof (JEmitter i ps) = ''object''"
| "typeof (JPred ts) = ''function''"

fun truthy :: "jsval \<Rightarrow> bool" where
  "truthy JUndefined = False"
| "truthy JNull = False"
| "truthy (JBool b) = b"
| "truthy (JNum n) = (n \<noteq> 0)"
| "truthy (JStr s) = (s \<noteq> [])"
| "truthy v = True"

definition own :: "(string \<times> jsval) list \<Rightarrow> string \<Rightarrow> jsval" where
  "own ps name = (case map_of ps name of None \<Rightarrow> JUndefined | Some v \<Rightarrow> v)"

text \<open>The read \<open>obj[name]\<close>: it throws on \<open>null\<close> and \<open>undefined\<close>.\<close>

fun get :: "jsval \<Rightarrow> string \<Rightarrow> error + jsval" where
  "get JUndefined name = Inl EngineTypeError"
| "get JNull name = Inl EngineTypeError"
| "get (JObj ps) name = Inr (own ps name)"
| "get (JEmitter i ps) name = Inr (own ps name)"
| "get (JArr xs) name =
     Inr (if name = ''length'' then JNum (int (length xs))
          else (case array_index name of
                  None \<Rightarrow> JUndefined
                | Some i \<Rightarrow> if i < length xs then xs ! i else JUndefined))"
| "get (JStr s) name =
     Inr (if name = ''length'' then JNum (int (length s))
          else (case array_index name of
                  None \<Rightarrow> JUndefined
                | Some i \<Rightarrow> if i < length s then JStr [s ! i] else JUndefined))"
| "get (JPred ts) name = Inr (if name = ''__IsIFDef'' then JBool True else JUndefined)"
| "get v name = Inr JUndefined"

fun join :: "string list \<Rightarrow> string" where
  "join [] = []"
| "join [s] = s"
| "join (s # t # ss) = s @ '','' @ join (t # ss)"

text \<open>
  The conversion of a value to a property name, as the assignment \<open>def[item] = ...\<close>
  performs it. For a plain object it is the text the built-in \<open>toString\<close> gives.
\<close>

fun to_key :: "jsval \<Rightarrow> string" where
  "to_key JUndefined = ''undefined''"
| "to_key JNull = ''null''"
| "to_key (JBool b) = (if b then ''true'' else ''false'')"
| "to_key (JNum n) = show_int n"
| "to_key (JStr s) = s"
| "to_key (JFun src) = src"
| "to_key (JArr xs) =
     join (map (\<lambda>x. case x of JUndefined \<Rightarrow> [] | JNull \<Rightarrow> [] | _ \<Rightarrow> to_key x) xs)"
| "to_key (JObj ps) = ''[object Object]''"
| "to_key (JEmitter i ps) = ''[object Object]''"
| "to_key (JPred ts) =
     ''function iftest( obj ) {'' @ [CHR 0x0A] @
     ''        return tests.reduce( ( ok, test ) => (ok && test( obj )), true );'' @
     [CHR 0x0A] @ ''    }''"

text \<open>
  The assignment \<open>obj[name] = v\<close> on a plain object. An existing property keeps its place;
  a new array-index name goes among the index names in ascending order, ahead of all
  other names; any other new name goes last. Assigning a string to \<open>__proto__\<close> creates
  no property.
\<close>

fun insert_index ::
  "nat \<Rightarrow> string \<times> 'a \<Rightarrow> (string \<times> 'a) list \<Rightarrow> (string \<times> 'a) list" where
  "insert_index i kv [] = [kv]"
| "insert_index i kv (p # ps) =
     (case array_index (fst p) of
        None \<Rightarrow> kv # p # ps
      | Some j \<Rightarrow> if i < j then kv # p # ps else p # insert_index i kv ps)"

definition put :: "(string \<times> 'a) list \<Rightarrow> string \<Rightarrow> 'a \<Rightarrow> (string \<times> 'a) list" where
  "put ps name v =
     (if name = ''__proto__'' then ps
      else if name \<in> fst ` set ps then map (\<lambda>p. if fst p = name then (name, v) else p) ps
      else (case array_index name of
              None \<Rightarrow> ps @ [(name, v)]
            | Some i \<Rightarrow> insert_index i (name, v) ps))"

section \<open>Interface definitions (lib/interface-def.js)\<close>

text \<open>The table \<open>Tests\<close> of property value type tests, and the test each tag stands for.\<close>

definition Tests :: "string \<Rightarrow> kind option" where
  "Tests = map_of
     [(''function'', KFunction), (''object'', KObject), (''array'', KArray),
      (''string'', KString), (''number'', KNumber), (''boolean'', KBoolean)]"

fun kind_test :: "kind \<Rightarrow> jsval \<Rightarrow> bool" where
  "kind_test KFunction v = (typeof v = ''function'')"
| "kind_test KObject v = (typeof v = ''object'')"
| "kind_test KArray v = (case v of JArr xs \<Rightarrow> True | _ \<Rightarrow> False)"
| "kind_test KString v = (typeof v = ''string'')"
| "kind_test KNumber v = (typeof v = ''number'')"
| "kind_test KBoolean v = (typeof v = ''boolean'')"

text \<open>
  The conversion of an array definition to object format:
  \<open>ifdef.reduce((def, item) => { def[item] = 'object'; return def; }, {})\<close>.
\<close>

definition array_to_object :: "jsval list \<Rightarrow> (string \<times> jsval) list" where
  "array_to_object items =
     foldl (\<lambda>def item. put def (to_key item) (JStr ''object'')) [] items"

definition weight :: "(string \<times> jsval) list \<Rightarrow> nat" where
  "weight ps = sum_list (map (\<lambda>p. size (snd p)) ps)"

text \<open>Facts about \<open>weight\<close>, for the termination of \<open>compile\<close>.\<close>

lemma weight_Cons: "weight (p # ps) = size (snd p) + weight ps"
  by (simp add: weight_def)

lemma weight_insert_index: "weight (insert_index i kv ps) = size (snd kv) + weight ps"
  by (induction ps) (auto simp: weight_def split: option.splits)

lemma weight_replace:
  "weight (map (\<lambda>p. if fst p = name then (name, JStr s) else p) ps) \<le> weight ps"
  by (induction ps) (auto simp: weight_def)

lemma weight_put: "weight (put ps name (JStr s)) \<le> weight ps"
  using weight_replace [of name s ps]
  by (auto simp: put_def weight_insert_index split: option.splits) (simp add: weight_def)

lemma weight_foldl_put:
  "weight (foldl (\<lambda>def item. put def (to_key item) (JStr s)) acc items) \<le> weight acc"
proof (induction items arbitrary: acc)
  case Nil
  show ?case by simp
next
  case (Cons item items)
  have "weight (foldl (\<lambda>def item. put def (to_key item) (JStr s))
                  (put acc (to_key item) (JStr s)) items)
        \<le> weight (put acc (to_key item) (JStr s))"
    by (rule Cons.IH)
  also have "\<dots> \<le> weight acc" by (rule weight_put)
  finally show ?case by simp
qed

lemma weight_array_to_object: "weight (array_to_object items) = 0"
  using weight_foldl_put [of "''object''" "[]" items]
  by (simp add: array_to_object_def weight_def)

lemma weight_less_size: "weight ps < Suc (size_list (size_prod (\<lambda>x. 0) size) ps)"
  by (induction ps) (auto simp: weight_def)

text \<open>
  \<open>compile\<close> and \<open>test\<close>, as in the source. \<open>tests_of\<close> is the
  \<open>Object.keys(ifdef).map(name => ...)\<close> of \<open>compile\<close>: it builds the tests in
  enumeration order and stops at the first \<open>test\<close> that throws. The value \<open>compile\<close>
  returns is either a predicate \<open>JPred tests\<close>, or the argument itself when its
  \<open>__IsIFDef\<close> property is truthy.
\<close>

function compile :: "jsval \<Rightarrow> error + jsval"
  and test :: "jsval \<Rightarrow> string \<Rightarrow> error + isa"
  and tests_of :: "(string \<times> jsval) list \<Rightarrow> error + (string \<times> isa) list"
where
  "compile ifdef =
     (case get ifdef ''__IsIFDef'' of
        Inl e \<Rightarrow> Inl e
      | Inr marker \<Rightarrow>
          if truthy marker then Inr ifdef
          else (case ifdef of
                  JArr items \<Rightarrow>
                    (case tests_of (array_to_object items) of
                       Inl e \<Rightarrow> Inl e | Inr ts \<Rightarrow> Inr (JPred ts))
                | JObj ps \<Rightarrow>
                    (case tests_of ps of Inl e \<Rightarrow> Inl e | Inr ts \<Rightarrow> Inr (JPred ts))
                | JEmitter i ps \<Rightarrow>
                    (case tests_of ps of Inl e \<Rightarrow> Inl e | Inr ts \<Rightarrow> Inr (JPred ts))
                | JNull \<Rightarrow> Inl EngineTypeError
                | _ \<Rightarrow> Inl (Error ''Bad interface definition'')))"
| "test type name =
     (case type of
        JStr t \<Rightarrow>
          (case Tests t of
             None \<Rightarrow> Inl (Error (''Unsupported type '' @ quote t @
                                 '' for property '' @ quote name))
           | Some k \<Rightarrow> Inr (IsaKind k))
      | _ \<Rightarrow> (case compile type of Inl e \<Rightarrow> Inl e | Inr isa \<Rightarrow> Inr (IsaNested isa)))"
| "tests_of [] = Inr []"
| "tests_of (p # ps) =
     (case test (snd p) (fst p) of
        Inl e \<Rightarrow> Inl e
      | Inr isa \<Rightarrow>
          (case tests_of ps of Inl e \<Rightarrow> Inl e | Inr ts \<Rightarrow> Inr ((fst p, isa) # ts)))"
  by pat_completeness auto

termination
proof (relation "inv_image (less_than <*lex*> less_than)
     (\<lambda>x. case x of
             Inl d \<Rightarrow> (size d, 0)
           | Inr (Inl (t, n)) \<Rightarrow> (size t, 1)
           | Inr (Inr ps) \<Rightarrow> (weight ps, Suc (Suc (length ps))))")
  show "wf (inv_image (less_than <*lex*> less_than)
     (\<lambda>x. case x of
             Inl d \<Rightarrow> (size d, 0::nat)
           | Inr (Inl (t, n)) \<Rightarrow> (size t, 1)
           | Inr (Inr ps) \<Rightarrow> (weight ps, Suc (Suc (length ps)))))"
    by (intro wf_inv_image wf_lex_prod wf_less_than)
qed (auto simp: weight_array_to_object weight_less_size weight_Cons)

text \<open>
  Calling a compiled definition. \<open>iftest_from tests ok obj\<close> is
  \<open>tests.reduce((ok, test) => (ok && test(obj)), ok)\<close>, where the test of an entry
  \<open>(name, isa)\<close> is \<open>obj => isa(obj[name])\<close>; the \<open>isa\<close> of a nested definition is
  \<open>obj => obj !== undefined && isa(obj)\<close>. \<open>call_value f obj\<close> is the call \<open>f(obj)\<close> of a
  value \<open>compile\<close> returned.
\<close>

function call_isa :: "isa \<Rightarrow> jsval \<Rightarrow> error + bool"
  and iftest_from :: "(string \<times> isa) list \<Rightarrow> bool \<Rightarrow> jsval \<Rightarrow> error + bool"
  and call_value :: "jsval \<Rightarrow> jsval \<Rightarrow> error + bool"
where
  "call_isa (IsaKind k) v = Inr (kind_test k v)"
| "call_isa (IsaNested isa) obj =
     (if obj \<noteq> JUndefined then call_value isa obj else Inr False)"
| "iftest_from [] ok obj = Inr ok"
| "iftest_from (t # ts) ok obj =
     (if ok then
        (case get obj (fst t) of
           Inl e \<Rightarrow> Inl e
         | Inr v \<Rightarrow>
             (case call_isa (snd t) v of
                Inl e \<Rightarrow> Inl e
              | Inr ok' \<Rightarrow> iftest_from ts ok' obj))
      else iftest_from ts False obj)"
| "call_value f obj =
     (case f of
        JPred tests \<Rightarrow> iftest_from tests True obj
      | JFun src \<Rightarrow> Inl (OpaqueCall src)
      | _ \<Rightarrow> Inl EngineTypeError)"
  by pat_completeness auto
termination
  by (relation "measure (\<lambda>x. case x of
        Inl (isa, v) \<Rightarrow> 2 * size isa + 1
      | Inr (Inl (ts, ok, obj)) \<Rightarrow> 2 * size (JPred ts)
      | Inr (Inr (f, obj)) \<Rightarrow> 2 * size f + 1)") auto

text \<open>
  What a caller such as \<open>App.listConformingServices\<close> does with a definition and a
  candidate: \<open>const iftest = InterfaceDef.compile(ifdef); ... iftest(service)\<close>.
\<close>

definition conforms :: "jsval \<Rightarrow> jsval \<Rightarrow> error + bool" where
  "conforms ifdef obj =
     (case compile ifdef of Inl e \<Rightarrow> Inl e | Inr iftest \<Rightarrow> call_value iftest obj)"


text \<open>The object definition that gives each listed name the type \<open>'object'\<close>.\<close>

definition object_descriptor :: "string list \<Rightarrow> jsval" where
  "object_descriptor names = JObj (map (\<lambda>name. (name, JStr ''object'')) (remdups names))"

definition nullish :: "jsval \<Rightarrow> bool" where
  "nullish v = (v = JNull \<or> v = JUndefined)"

section \<open>The app backbone (class App)\<close>

text \<open>
  \<open>App\<close> extends Node's \<open>EventEmitter\<close>. The emitter is modelled by its contract:
  \<open>on\<close> appends a listener to the list kept for the event name, \<open>once\<close> calls \<open>this.on\<close>
  with a wrapper that removes itself before it runs the listener, \<open>removeListener\<close> removes
  the most recently added registration of a listener, and \<open>emit\<close> calls the listeners
  registered at the time of the call, in registration order, until one throws. The
  \<open>newListener\<close> and \<open>removeListener\<close> notifications of the emitter, and its special
  treatment of the event name \<open>error\<close>, are not modelled.

  Functions are first-order data. A callback or listener that a caller supplies is
  opaque: it is identified by a number, the model records each call made to it with the
  argument passed, and assumes that it returns normally without touching the backbone.
  The closures the backbone creates itself are the other constructors, each with the
  variables it captured; the number they carry is the identity of the closure.
  \<^item> \<open>Resubscribe eventName listener method\<close> is
    \<open>() => { app._addEventListener(eventName, listener, method); }\<close>;
  \<^item> \<open>BindHandler i name callback once\<close> is the \<open>handler\<close> of \<open>onServiceBind\<close>;
  \<^item> \<open>ConformHandler i iftest callback\<close> is the handler of \<open>onConformingServiceBind\<close>;
  \<^item> \<open>OnceWrapper i listener\<close> is the wrapper \<open>once\<close> installs.
\<close>

datatype subscribe_method = On | Once

datatype callback =
    UserCallback nat
  | Resubscribe string listener subscribe_method
and listener =
    UserListener nat
  | BindHandler nat string callback bool
  | ConformHandler nat jsval callback
  | OnceWrapper nat listener

datatype invocation =
    CallbackCalled nat jsval
  | ListenerCalled nat string jsval

text \<open>
  The registry \<open>this.services\<close> is created by the literal \<open>{}\<close>: a plain object whose
  prototype is \<open>Object.prototype\<close>. A read \<open>this.services[name]\<close> finds the service bound
  under the name, and otherwise what the prototype chain of the registry contributes:
  for a fresh registry the members of \<open>Object.prototype\<close> (\<open>object_prototype\<close> lists
  them; \<open>native name\<close> is a built-in function), and under the name \<open>__proto__\<close> the
  prototype itself. An assignment \<open>this.services['__proto__'] = v\<close> that reaches the
  accessor of \<open>Object.prototype\<close> replaces the prototype of the registry when \<open>v\<close> is an
  object or \<open>null\<close> and does nothing otherwise. \<open>prototype\<close> is the prototype the registry
  has: \<open>Object.prototype\<close>, none (after \<open>null\<close> was assigned), or the object assigned.
\<close>

datatype prototype = ObjectPrototype | NoPrototype | Prototype jsval

definition native :: "string \<Rightarrow> jsval" where
  "native name = JFun (''function '' @ name @ ''() { [native code] }'')"

definition object_prototype :: "(string \<times> jsval) list" where
  "object_prototype =
     [(''constructor'', native ''Object''),
      (''__defineGetter__'', native ''__defineGetter__''),
      (''__defineSetter__'', native ''__defineSetter__''),
      (''hasOwnProperty'', native ''hasOwnProperty''),
      (''__lookupGetter__'', native ''__lookupGetter__''),
      (''__lookupSetter__'', native ''__lookupSetter__''),
      (''isPrototypeOf'', native ''isPrototypeOf''),
      (''propertyIsEnumerable'', native ''propertyIsEnumerable''),
      (''toString'', native ''toString''),
      (''valueOf'', native ''valueOf''),
      (''toLocaleString'', native ''toLocaleString'')]"

text \<open>
  The property a value lists under a name, if any; and whether a value is an object (the
  values the \<open>__proto__\<close> setter accepts besides \<open>null\<close>).
\<close>

definition listed :: "jsval \<Rightarrow> string \<Rightarrow> jsval option" where
  "listed v name =
     (case v of
        JObj ps \<Rightarrow> map_of ps name
      | JEmitter i ps \<Rightarrow> map_of ps name
      | _ \<Rightarrow>
          (case get v name of
             Inl e \<Rightarrow> None
           | Inr x \<Rightarrow> if x = JUndefined then None else Some x))"

definition is_object :: "jsval \<Rightarrow> bool" where
  "is_object v \<longleftrightarrow> typeof v = ''function'' \<or> (typeof v = ''object'' \<and> v \<noteq> JNull)"

text \<open>
  What a read of \<open>name\<close> finds through the prototype chain of the registry. Behind an
  object that replaced the prototype, the chain is taken to end in \<open>Object.prototype\<close>.
\<close>

definition inherited :: "prototype \<Rightarrow> string \<Rightarrow> jsval" where
  "inherited p name =
     (case p of
        ObjectPrototype \<Rightarrow>
          if name = ''__proto__'' then JObj object_prototype else own object_prototype name
      | NoPrototype \<Rightarrow> JUndefined
      | Prototype v \<Rightarrow>
          (case listed v name of
             Some x \<Rightarrow> x
           | None \<Rightarrow> if name = ''__proto__'' then v else own object_prototype name))"

text \<open>Whether an assignment to \<open>__proto__\<close> finds the accessor of \<open>Object.prototype\<close>.\<close>

definition reaches_accessor :: "prototype \<Rightarrow> bool" where
  "reaches_accessor p =
     (case p of
        ObjectPrototype \<Rightarrow> True
      | NoPrototype \<Rightarrow> False
      | Prototype v \<Rightarrow> listed v ''__proto__'' = None)"

text \<open>
  The creation or update of an own property by an assignment: \<open>put\<close> without its special
  case.
\<close>

definition define_own :: "(string \<times> 'a) list \<Rightarrow> string \<Rightarrow> 'a \<Rightarrow> (string \<times> 'a) list" where
  "define_own ps name v =
     (if name \<in> fst ` set ps then map (\<lambda>p. if fst p = name then (name, v) else p) ps
      else (case array_index name of
              None \<Rightarrow> ps @ [(name, v)]
            | Some i \<Rightarrow> insert_index i (name, v) ps))"

text \<open>
  The state of a backbone: the own properties of the registry \<open>this.services\<close> and its
  prototype, the listeners registered on the backbone's own bus (event name and
  listener, in registration order), and the counter that numbers the closures. \<open>invoked\<close>
  is the trace of the calls made to opaque callbacks and listeners, oldest first.
  \<open>delegated\<close> is the trace of the calls \<open>source[method](eventName, listener)\<close> made on
  bound emitters. \<open>logged\<close> holds the lines passed to \<open>log.debug\<close>.
\<close>

record app =
  services :: "(string \<times> jsval) list"
  services_proto :: prototype
  listeners :: "(string \<times> listener) list"
  next_closure :: nat
  invoked :: "invocation list"
  delegated :: "(nat \<times> subscribe_method \<times> string \<times> listener) list"
  logged :: "string list"

definition new_App :: app where
  "new_App = \<lparr>services = [], services_proto = ObjectPrototype, listeners = [],
              next_closure = 0, invoked = [], delegated = [], logged = []\<rparr>"

text \<open>The read \<open>this.services[name]\<close> and the assignment \<open>this.services[name] = v\<close>.\<close>

definition service_at :: "app \<Rightarrow> string \<Rightarrow> jsval" where
  "service_at a name =
     (case map_of (services a) name of
        Some v \<Rightarrow> v
      | None \<Rightarrow> inherited (services_proto a) name)"

definition assign :: "app \<Rightarrow> string \<Rightarrow> jsval \<Rightarrow> app" where
  "assign a name v =
     (if name = ''__proto__'' \<and> name \<notin> fst ` set (services a)
         \<and> reaches_accessor (services_proto a)
      then (if v = JNull then a\<lparr>services_proto := NoPrototype\<rparr>
            else if is_object v then a\<lparr>services_proto := Prototype v\<rparr>
            else a)
      else a\<lparr>services := define_own (services a) name v\<rparr>)"

text \<open>
  An operation on the backbone returns the exception it threw, if any, and the state it
  left behind.
\<close>

type_synonym outcome = "error option \<times> app"

definition base_on :: "app \<Rightarrow> string \<Rightarrow> listener \<Rightarrow> app" where
  "base_on a eventName l = a\<lparr>listeners := listeners a @ [(eventName, l)]\<rparr>"

definition remove_last :: "'a \<Rightarrow> 'a list \<Rightarrow> 'a list" where
  "remove_last x xs = rev (remove1 x (rev xs))"

definition removeListener :: "app \<Rightarrow> string \<Rightarrow> listener \<Rightarrow> app" where
  "removeListener a eventName l =
     a\<lparr>listeners := remove_last (eventName, l) (listeners a)\<rparr>"

text \<open>\<open>s.indexOf(c)\<close>; \<open>None\<close> stands for \<open>-1\<close>.\<close>

fun indexOf :: "char \<Rightarrow> string \<Rightarrow> nat option" where
  "indexOf c [] = None"
| "indexOf c (x # xs) =
     (if x = c then Some 0 else map_option Suc (indexOf c xs))"

definition bind_event :: "string \<Rightarrow> jsval \<Rightarrow> jsval" where
  "bind_event name service = JObj [(''name'', JStr name), (''service'', service)]"

text \<open>
  The second half of \<open>onServiceBind\<close>: create the handler and register it with
  \<open>this.on('service-bind', handler)\<close>. The event name has no colon, so the overridden
  \<open>on\<close> registers it on the backbone's own bus (lemma \<open>addEventListener_plain\<close>).
\<close>

definition subscribe_bind :: "app \<Rightarrow> string \<Rightarrow> callback \<Rightarrow> bool \<Rightarrow> app" where
  "subscribe_bind a name cb once =
     base_on (a\<lparr>next_closure := Suc (next_closure a)\<rparr>) ''service-bind''
       (BindHandler (next_closure a) name cb once)"

text \<open>
  The call \<open>source[method](eventName, listener)\<close> on a bound instance of \<open>EventEmitter\<close>
  with identity \<open>e\<close> and listed properties \<open>ps\<close>. When the instance lists no property of
  the method's name, the method is the one \<open>EventEmitter.prototype\<close> provides, and the call
  is recorded in \<open>delegated\<close>. A listed property takes its place: a function outside the
  model, a compiled interface test, or a value that cannot be called.
\<close>

definition method_name :: "subscribe_method \<Rightarrow> string" where
  "method_name m = (case m of On \<Rightarrow> ''on'' | Once \<Rightarrow> ''once'')"

definition source_method ::
  "app \<Rightarrow> nat \<Rightarrow> (string \<times> jsval) list \<Rightarrow> subscribe_method \<Rightarrow> string \<Rightarrow> listener
     \<Rightarrow> outcome" where
  "source_method a e ps m eventName l =
     (case map_of ps (method_name m) of
        None \<Rightarrow> (None, a\<lparr>delegated := delegated a @ [(e, m, eventName, l)]\<rparr>)
      | Some f \<Rightarrow>
          (case f of
             JFun src \<Rightarrow> (Some (OpaqueCall src), a)
           | JPred ts \<Rightarrow>
               (case call_value f (JStr eventName) of
                  Inl err \<Rightarrow> (Some err, a)
                | Inr ok \<Rightarrow> (None, a))
           | _ \<Rightarrow> (Some EngineTypeError, a)))"

text \<open>
  \<open>_addEventListener(eventName, listener, method)\<close>. When the read of the registry under
  the qualifier gives \<open>undefined\<close>, the source calls
  \<open>this.onServiceBind(sourceName, () => ...)\<close>; the same read gives \<open>undefined\<close> there, so
  that call goes straight to its second half (lemma \<open>onServiceBind_unbound\<close>).
  \<open>super.once\<close> calls \<open>this.on\<close>, which is the overridden \<open>on\<close> again.
\<close>

function addEventListener :: "app \<Rightarrow> string \<Rightarrow> listener \<Rightarrow> subscribe_method \<Rightarrow> outcome" where
  "addEventListener a eventName l m =
     (let super = (\<lambda>name.
            case m of
              On \<Rightarrow> (None, base_on a name l)
            | Once \<Rightarrow>
                addEventListener (a\<lparr>next_closure := Suc (next_closure a)\<rparr>) name
                  (OnceWrapper (next_closure a) l) On)
      in case indexOf CHR '':'' eventName of
           Some (Suc i) \<Rightarrow>
             (let sourceName = take (Suc i) eventName;
                  source = service_at a sourceName
              in if source = JUndefined
                 then (None, subscribe_bind a sourceName (Resubscribe eventName l m) True)
                 else (case source of
                         JEmitter e ps \<Rightarrow>
                           source_method a e ps m (drop (Suc (Suc i)) eventName) l
                       | _ \<Rightarrow>
                           (Some (Error (''Event source must be an EventEmitter: '' @
                                         sourceName)), a)))
         | Some 0 \<Rightarrow> super (drop 1 eventName)
         | None \<Rightarrow> super eventName)"
  by pat_completeness auto
termination
  by (relation "measure (\<lambda>(a, eventName, l, m). case m of On \<Rightarrow> 0 | Once \<Rightarrow> 1)") auto

fun invoke_callback :: "app \<Rightarrow> callback \<Rightarrow> jsval \<Rightarrow> outcome" where
  "invoke_callback a (UserCallback n) event =
     (None, a\<lparr>invoked := invoked a @ [CallbackCalled n event]\<rparr>)"
| "invoke_callback a (Resubscribe eventName l m) event = addEventListener a eventName l m"

text \<open>
  \<open>onServiceBind(name, callback, once = true)\<close>. The callback is a function by its type,
  so the check \<open>typeof callback !== 'function'\<close> never fails here.
\<close>

definition onServiceBind :: "app \<Rightarrow> jsval \<Rightarrow> callback \<Rightarrow> bool \<Rightarrow> outcome" where
  "onServiceBind a name callback once =
     (case name of
        JStr n \<Rightarrow>
          (let service = service_at a n
           in if service \<noteq> JUndefined
              then (case invoke_callback a callback (bind_event n service) of
                      (Some e, a') \<Rightarrow> (Some e, a')
                    | (None, a') \<Rightarrow>
                        if once then (None, a')
                        else (None, subscribe_bind a' n callback once))
              else (None, subscribe_bind a n callback once))
      | _ \<Rightarrow> (Some (TypeError ''Service name must be a string''), a))"

text \<open>A listener is called with the payload of the event \<open>eventName\<close> being emitted.\<close>

fun call_listener :: "app \<Rightarrow> string \<Rightarrow> listener \<Rightarrow> jsval \<Rightarrow> outcome" where
  "call_listener a eventName (UserListener n) event =
     (None, a\<lparr>invoked := invoked a @ [ListenerCalled n eventName event]\<rparr>)"
| "call_listener a eventName (BindHandler i name callback once) event =
     (case get event ''name'' of
        Inl e \<Rightarrow> (Some e, a)
      | Inr v \<Rightarrow>
          if v = JStr name
          then (case invoke_callback a callback event of
                  (Some e, a') \<Rightarrow> (Some e, a')
                | (None, a') \<Rightarrow>
                    if once
                    then (None, removeListener a' ''service-bind''
                                  (BindHandler i name callback once))
                    else (None, a'))
          else (None, a))"
| "call_listener a eventName (ConformHandler i iftest callback) event =
     (case get event ''service'' of
        Inl e \<Rightarrow> (Some e, a)
      | Inr service \<Rightarrow>
          (case call_value iftest service of
             Inl e \<Rightarrow> (Some e, a)
           | Inr ok \<Rightarrow> if ok then invoke_callback a callback event else (None, a)))"
| "call_listener a eventName (OnceWrapper i l) event =
     call_listener (removeListener a eventName (OnceWrapper i l)) eventName l event"

fun emit_to :: "app \<Rightarrow> string \<Rightarrow> jsval \<Rightarrow> listener list \<Rightarrow> outcome" where
  "emit_to a eventName event [] = (None, a)"
| "emit_to a eventName event (l # ls) =
     (case call_listener a eventName l event of
        (Some e, a') \<Rightarrow> (Some e, a')
      | (None, a') \<Rightarrow> emit_to a' eventName event ls)"

definition emit :: "app \<Rightarrow> string \<Rightarrow> jsval \<Rightarrow> outcome" where
  "emit a eventName event =
     emit_to a eventName event
       (map snd (filter (\<lambda>p. fst p = eventName) (listeners a)))"

text \<open>\<open>bind(name, service)\<close>: store the instance, then publish the notification.\<close>

definition bind :: "app \<Rightarrow> string \<Rightarrow> jsval \<Rightarrow> outcome" where
  "bind a name service =
     emit (assign a name service) ''service-bind'' (bind_event name service)"

text \<open>The public \<open>on\<close> and \<open>once\<close>.\<close>

definition App_on :: "app \<Rightarrow> string \<Rightarrow> listener \<Rightarrow> outcome" where
  "App_on a eventName l = addEventListener a eventName l On"

definition App_once :: "app \<Rightarrow> string \<Rightarrow> listener \<Rightarrow> outcome" where
  "App_once a eventName l = addEventListener a eventName l Once"

text \<open>
  \<open>listConformingServices(ifdef)\<close>: the names of the bound services the compiled test
  accepts; the exception of \<open>compile\<close> or of the first test that throws otherwise.
\<close>

fun filter_conforming :: "jsval \<Rightarrow> (string \<times> jsval) list \<Rightarrow> error + string list" where
  "filter_conforming iftest [] = Inr []"
| "filter_conforming iftest (p # ps) =
     (case call_value iftest (snd p) of
        Inl e \<Rightarrow> Inl e
      | Inr ok \<Rightarrow>
          (case filter_conforming iftest ps of
             Inl e \<Rightarrow> Inl e
           | Inr names \<Rightarrow> Inr (if ok then fst p # names else names)))"

definition listConformingServices :: "app \<Rightarrow> jsval \<Rightarrow> error + string list" where
  "listConformingServices a ifdef =
     (case compile ifdef of
        Inl e \<Rightarrow> Inl e
      | Inr iftest \<Rightarrow> filter_conforming iftest (services a))"

fun invoke_each :: "app \<Rightarrow> callback \<Rightarrow> string list \<Rightarrow> outcome" where
  "invoke_each a callback [] = (None, a)"
| "invoke_each a callback (name # names) =
     (case invoke_callback a callback (bind_event name (service_at a name)) of
        (Some e, a') \<Rightarrow> (Some e, a')
      | (None, a') \<Rightarrow> invoke_each a' callback names)"

definition onConformingServiceBind :: "app \<Rightarrow> jsval \<Rightarrow> callback \<Rightarrow> outcome" where
  "onConformingServiceBind a ifdef callback =
     (case compile ifdef of
        Inl e \<Rightarrow> (Some e, a)
      | Inr iftest \<Rightarrow>
          (case listConformingServices a iftest of
             Inl e \<Rightarrow> (Some e, a)
           | Inr conforming \<Rightarrow>
               (case invoke_each a callback conforming of
                  (Some e, a') \<Rightarrow> (Some e, a')
                | (None, a') \<Rightarrow>
                    (None, base_on (a'\<lparr>next_closure := Suc (next_closure a')\<rparr>)
                             ''service-bind''
                             (ConformHandler (next_closure a') iftest callback)))))"

text \<open>
  Bookkeeping for the properties of \<open>onServiceBind\<close>: whether a callback or a listener
  leads to the opaque callback \<open>c\<close>, and the arguments \<open>c\<close> has been called with.
\<close>

fun cb_mentions :: "nat \<Rightarrow> callback \<Rightarrow> bool"
  and l_mentions :: "nat \<Rightarrow> listener \<Rightarrow> bool" where
  "cb_mentions c (UserCallback n) = (n = c)"
| "cb_mentions c (Resubscribe eventName l m) = l_mentions c l"
| "l_mentions c (UserListener n) = False"
| "l_mentions c (BindHandler i name cb once) = cb_mentions c cb"
| "l_mentions c (ConformHandler i iftest cb) = cb_mentions c cb"
| "l_mentions c (OnceWrapper i l) = l_mentions c l"

definition mentioning :: "nat \<Rightarrow> app \<Rightarrow> (string \<times> listener) list" where
  "mentioning c a = filter (\<lambda>p. l_mentions c (snd p)) (listeners a)"

fun call_args :: "nat \<Rightarrow> invocation list \<Rightarrow> jsval list" where
  "call_args c [] = []"
| "call_args c (CallbackCalled n event # rest) =
     (if n = c then event # call_args c rest else call_args c rest)"
| "call_args c (ListenerCalled n eventName event # rest) = call_args c rest"

definition calls_of :: "nat \<Rightarrow> app \<Rightarrow> jsval list" where
  "calls_of c a = call_args c (invoked a)"

text \<open>A run of \<open>bind\<close> calls; a caller may go on after a \<open>bind\<close> that threw.\<close>

fun bind_all :: "app \<Rightarrow> (string \<times> jsval) list \<Rightarrow> app" where
  "bind_all a [] = a"
| "bind_all a (b # bs) = bind_all (snd (bind a (fst b) (snd b))) bs"

text \<open>
  Relations between the state before and after an operation, used to state what an
  operation leaves alone: the listeners that lead to \<open>c\<close> and the calls made to \<open>c\<close>
  (\<open>same_for\<close>); the registry and the delegations made so far (\<open>kept\<close>); the
  registered listeners (\<open>grows\<close>). \<open>registered h a\<close> says the handler \<open>h\<close> listens for
  \<open>service-bind\<close>.
\<close>

definition same_for :: "nat \<Rightarrow> app \<Rightarrow> app \<Rightarrow> bool" where
  "same_for c a a' \<longleftrightarrow> mentioning c a' = mentioning c a \<and> calls_of c a' = calls_of c a"

definition kept :: "app \<Rightarrow> app \<Rightarrow> bool" where
  "kept a a' \<longleftrightarrow>
     services a' = services a \<and> services_proto a' = services_proto a
     \<and> set (delegated a) \<subseteq> set (delegated a')"



text \<open>
  Sample values: the settings and the \<open>db\<close> service of the test suite, and a plain object
  with \<open>on\<close> and \<open>once\<close>.
\<close>

definition demo_settings :: jsval where
  "demo_settings = JObj [(''message'', JStr ''Test message'')]"

definition demo_db :: jsval where
  "demo_db = JObj [(''getMessage'', JFun ''() => settings.message'')]"


declare addEventListener.simps [simp del]

section \<open>Starting a backbone (readArgNames, load, start)\<close>

text \<open>
  \<open>readArgNames(fn, name)\<close> reads the argument names off the text \<open>fn.toString()\<close> with
  the regular expression \<open>/^(?:function(?:\s+\w+)?)?\s*\(([^)]+)/\<close>. \<open>is_space\<close> and
  \<open>is_word\<close> are the classes \<open>\s\<close> and \<open>\w\<close> over ASCII.
\<close>

definition is_space :: "char \<Rightarrow> bool" where
  "is_space c \<longleftrightarrow> c \<in> set [CHR '' '', CHR 0x09, CHR 0x0A, CHR 0x0B, CHR 0x0C, CHR 0x0D]"

definition is_word :: "char \<Rightarrow> bool" where
  "is_word c \<longleftrightarrow>
     c \<in> set ''abcdefghijklmnopqrstuvwxyzABCDEFGHIJKLMNOPQRSTUVWXYZ0123456789_''"

text \<open>
  \<open>open_paren s\<close> matches the tail \<open>\s*\(([^)]+)\<close> of the expression at the start of \<open>s\<close>
  and gives the captured group.
\<close>

definition open_paren :: "string \<Rightarrow> string option" where
  "open_paren s =
     (case dropWhile is_space s of
        [] \<Rightarrow> None
      | c # rest \<Rightarrow>
          if c = CHR ''(''
          then (let args = takeWhile (\<lambda>x. x \<noteq> CHR '')'') rest
                in if args = [] then None else Some args)
          else None)"

text \<open>
  The whole expression, in the order the matcher tries its alternatives: the keyword
  with a function name, the keyword alone, no keyword.
\<close>

definition match_arglist :: "string \<Rightarrow> string option" where
  "match_arglist src =
     (if take 8 src = ''function''
      then (let rest = drop 8 src;
                named = dropWhile is_space rest;
                with_name =
                  (if named \<noteq> rest \<and> takeWhile is_word named \<noteq> []
                   then open_paren (dropWhile is_word named) else None)
            in case with_name of
                 Some args \<Rightarrow> Some args
               | None \<Rightarrow>
                   (case open_paren rest of
                      Some args \<Rightarrow> Some args
                    | None \<Rightarrow> open_paren src))
      else open_paren src)"

fun split :: "char \<Rightarrow> string \<Rightarrow> string list" where
  "split c [] = [[]]"
| "split c (x # xs) =
     (if x = c then [] # split c xs
      else (case split c xs of
              [] \<Rightarrow> [[x]]
            | w # ws \<Rightarrow> (x # w) # ws))"

definition trim :: "string \<Rightarrow> string" where
  "trim s = rev (dropWhile is_space (rev (dropWhile is_space s)))"

text \<open>The method call \<open>v.toString()\<close>.\<close>

definition toString :: "jsval \<Rightarrow> error + string" where
  "toString v = (if nullish v then Inl EngineTypeError else Inr (to_key v))"

text \<open>
  \<open>readArgNames(fn, name)\<close>. When the first expression does not match, evaluating the
  argument of the second \<open>exec\<close> raises a \<open>ReferenceError\<close>: the identifier \<open>fns\<close> is
  declared nowhere. The statements after it, which alone use \<open>name\<close>, are never reached.
\<close>

definition readArgNames :: "jsval \<Rightarrow> 'a \<Rightarrow> error + string list" where
  "readArgNames fn name =
     (case toString fn of
        Inl e \<Rightarrow> Inl e
      | Inr src \<Rightarrow>
          (case match_arglist src of
             Some args \<Rightarrow> Inr (map trim (split CHR '','' args))
           | None \<Rightarrow> Inl (EngineReferenceError ''fns'')))"

text \<open>
  A service definition is a service instance or a factory function. A factory is its
  source text and its behaviour: given the backbone as \<open>this\<close> and the arguments, the
  state it leaves the backbone in when it returns and the outcome of awaiting its result
  (the value, or the exception it threw or rejected with). What a factory does to the
  backbone after it has returned is not modelled.
\<close>

datatype descriptor =
    Instance jsval
  | Factory string "app \<Rightarrow> jsval list \<Rightarrow> (error + jsval) \<times> app"

definition is_function :: "descriptor \<Rightarrow> bool" where
  "is_function d =
     (case d of Factory src run \<Rightarrow> True | Instance v \<Rightarrow> typeof v = ''function'')"

text \<open>\<open>def.apply(app, args)\<close>, awaited.\<close>

definition apply_def :: "descriptor \<Rightarrow> app \<Rightarrow> jsval list \<Rightarrow> (error + jsval) \<times> app" where
  "apply_def d a args =
     (case d of
        Factory src run \<Rightarrow> run a args
      | Instance f \<Rightarrow>
          (case call_value f (case args of [] \<Rightarrow> JUndefined | x # xs \<Rightarrow> x) of
             Inl e \<Rightarrow> (Inl e, a)
           | Inr b \<Rightarrow> (Inr (JBool b), a)))"

fun resolve_args :: "app \<Rightarrow> string \<Rightarrow> string list \<Rightarrow> error + jsval list" where
  "resolve_args a name [] = Inr []"
| "resolve_args a name (argName # rest) =
     (let arg = service_at a argName
      in if arg = JUndefined
         then Inl (Error (''Unresolved dependency: '' @ quote argName @
                          '' for '' @ quote name))
         else (case resolve_args a name rest of
                 Inl e \<Rightarrow> Inl e
               | Inr args \<Rightarrow> Inr (arg # args)))"

text \<open>
  \<open>load(name, def, app)\<close>: the settlement of the promise it returns, and the state of the
  backbone. The source calls \<open>readArgNames( name, def )\<close>, the service name first.
\<close>

definition load :: "string \<Rightarrow> descriptor \<Rightarrow> app \<Rightarrow> (error + jsval) \<times> app" where
  "load name d a =
     (if is_function d
      then (case readArgNames (JStr name) d of
              Inl e \<Rightarrow> (Inl e, a)
            | Inr argNames \<Rightarrow>
                (case resolve_args a name argNames of
                   Inl e \<Rightarrow> (Inl e, a)
                 | Inr args \<Rightarrow> apply_def d a args))
      else (case d of Instance v \<Rightarrow> (Inr v, a) | Factory src run \<Rightarrow> (Inr JUndefined, a)))"

text \<open>
  The arguments of \<open>start\<close>. An element of the layer list is a mapping of names to service
  definitions, or any other value; the whole argument is a list, or a value that is not
  an array.
\<close>

datatype layer = Mapping "(string \<times> descriptor) list" | NotMapping jsval

datatype layers_arg = Layers "layer list" | NotArray jsval

text \<open>\<open>Object.keys(layer)\<close> paired with \<open>layer[name]\<close>.\<close>

fun indexed :: "nat \<Rightarrow> jsval list \<Rightarrow> (string \<times> descriptor) list" where
  "indexed i [] = []"
| "indexed i (x # xs) = (show_nat i, Instance x) # indexed (Suc i) xs"

definition entries_of :: "layer \<Rightarrow> error + (string \<times> descriptor) list" where
  "entries_of l =
     (case l of
        Mapping ps \<Rightarrow> Inr ps
      | NotMapping v \<Rightarrow>
          (case v of
             JUndefined \<Rightarrow> Inl EngineTypeError
           | JNull \<Rightarrow> Inl EngineTypeError
           | JStr s \<Rightarrow> Inr (indexed 0 (map (\<lambda>c. JStr [c]) s))
           | JArr xs \<Rightarrow> Inr (indexed 0 xs)
           | JObj ps \<Rightarrow> Inr (map (\<lambda>p. (fst p, Instance (snd p))) ps)
           | JEmitter i ps \<Rightarrow> Inr (map (\<lambda>p. (fst p, Instance (snd p))) ps)
           | _ \<Rightarrow> Inr []))"

text \<open>
  \<open>log.debug(line)\<close>. The logger's \<open>debug\<close> is opaque: the line is recorded and the call
  returns.
\<close>

definition debug :: "jsval \<Rightarrow> app \<Rightarrow> string \<Rightarrow> outcome" where
  "debug log a line =
     (case get log ''debug'' of
        Inl e \<Rightarrow> (Some e, a)
      | Inr f \<Rightarrow>
          if typeof f = ''function'' then (None, a\<lparr>logged := logged a @ [line]\<rparr>)
          else (Some EngineTypeError, a))"

text \<open>
  \<open>names.map(name => load(name, layer[name], app))\<close>: every \<open>load\<close> of the layer is
  started, in order, whether or not an earlier one failed.
\<close>

fun load_all :: "app \<Rightarrow> (string \<times> descriptor) list \<Rightarrow> (error + jsval) list \<times> app" where
  "load_all a [] = ([], a)"
| "load_all a (p # ps) =
     (case load (fst p) (snd p) a of
        (r, a') \<Rightarrow> (case load_all a' ps of (rs, a'') \<Rightarrow> (r # rs, a'')))"

text \<open>
  \<open>await Promise.all(pending)\<close>: the values, or the first rejection in the order of the
  list (when several factories reject at different times, the source takes the earliest
  in time).
\<close>

fun all_settled :: "(error + jsval) list \<Rightarrow> error + jsval list" where
  "all_settled [] = Inr []"
| "all_settled (r # rs) =
     (case r of
        Inl e \<Rightarrow> Inl e
      | Inr v \<Rightarrow> (case all_settled rs of Inl e \<Rightarrow> Inl e | Inr vs \<Rightarrow> Inr (v # vs)))"

fun bind_each :: "jsval \<Rightarrow> app \<Rightarrow> (string \<times> jsval) list \<Rightarrow> outcome" where
  "bind_each log a [] = (None, a)"
| "bind_each log a (p # ps) =
     (case debug log a (''Binding '' @ fst p @ ''...'') of
        (Some e, a') \<Rightarrow> (Some e, a')
      | (None, a') \<Rightarrow>
          (case bind a' (fst p) (snd p) of
             (Some e, a'') \<Rightarrow> (Some e, a'')
           | (None, a'') \<Rightarrow> bind_each log a'' ps))"

text \<open>The body of the loop of \<open>start\<close> for the layer at index \<open>idx\<close>.\<close>

definition run_layer :: "jsval \<Rightarrow> app \<Rightarrow> nat \<Rightarrow> layer \<Rightarrow> outcome" where
  "run_layer log a idx l =
     (case debug log a (''Initializing layer '' @ show_nat idx @ ''...'') of
        (Some e, a1) \<Rightarrow> (Some e, a1)
      | (None, a1) \<Rightarrow>
          (case entries_of l of
             Inl e \<Rightarrow> (Some e, a1)
           | Inr entries \<Rightarrow>
               (case load_all a1 entries of
                  (results, a2) \<Rightarrow>
                    (case all_settled results of
                       Inl e \<Rightarrow> (Some e, a2)
                     | Inr instances \<Rightarrow>
                         bind_each log a2 (zip (map fst entries) instances)))))"

text \<open>
  \<open>start(layers, log)\<close>: \<open>(None, a)\<close> when the promise resolves with the backbone \<open>a\<close>,
  \<open>(Some e, a)\<close> when it rejects with \<open>e\<close>, the backbone being left as \<open>a\<close>. The loop is
  \<open>for( let idx = 0; idx < layers.length; i++ )\<close>: when the list is not empty, the body
  runs for index 0, and then the update \<open>i++\<close> raises a \<open>ReferenceError\<close>, since \<open>i\<close> is
  declared nowhere.
\<close>

definition start :: "layers_arg \<Rightarrow> jsval \<Rightarrow> outcome" where
  "start layers log =
     (let run = (\<lambda>ls.
            case ls of
              [] \<Rightarrow> (None, new_App)
            | l # rest \<Rightarrow>
                (case run_layer log new_App 0 l of
                   (Some e, a) \<Rightarrow> (Some e, a)
                 | (None, a) \<Rightarrow> (Some (EngineReferenceError ''i''), a)))
      in case layers of
           Layers ls \<Rightarrow> run ls
         | NotArray v \<Rightarrow>
             (case v of
                JArr xs \<Rightarrow> run (map NotMapping xs)
              | _ \<Rightarrow> (Some (TypeError ''Service layers must be an array''), new_App)))"

text \<open>
  \<open>start(layers, log)\<close> of \<open>lib/app.js\<close>. Its guard is
  \<open>assert( Array.isArray( layers ), 'layers must be an array')\<close>, and its loop has the same
  header. The backbone of \<open>lib/app.js\<close> keeps the services as properties of the backbone
  object itself; its state is left abstract here: \<open>fresh\<close> is the backbone \<open>new App()\<close>
  creates, and \<open>body\<close> is the body of the loop for the layer at index 0, which gives the
  exception it threw, if any, and the backbone it left behind.
\<close>

definition lib_start ::
  "'b \<Rightarrow> ('b \<Rightarrow> layer \<Rightarrow> error option \<times> 'b) \<Rightarrow> layers_arg \<Rightarrow> error option \<times> 'b" where
  "lib_start fresh body layers =
     (let run = (\<lambda>ls.
            case ls of
              [] \<Rightarrow> (None, fresh)
            | l # rest \<Rightarrow>
                (case body fresh l of
                   (Some e, b) \<Rightarrow> (Some e, b)
                 | (None, b) \<Rightarrow> (Some (EngineReferenceError ''i''), b)))
      in case layers of
           Layers ls \<Rightarrow> run ls
         | NotArray v \<Rightarrow>
             (case v of
                JArr xs \<Rightarrow> run (map NotMapping xs)
              | _ \<Rightarrow> (Some (AssertionError ''layers must be an array''), fresh)))"

text \<open>Sample values: a logger, and the layers of the test suite.\<close>

definition demo_logger :: jsval where
  "demo_logger = JObj [(''debug'', JFun ''function debug() {}'')]"

definition db_factory :: "(app \<Rightarrow> jsval list \<Rightarrow> (error + jsval) \<times> app) \<Rightarrow> descriptor" where
  "db_factory run =
     Factory (''function db( settings ) {'' @ [CHR 0x0A] @
              ''    return { getMessage: () => settings.message }'' @ [CHR 0x0A] @ ''}'') run"

section \<open>The IPC client (lib/ipc/client.js)\<close>

text \<open>
  The state the closures of \<open>Client.connect\<close> share: the counter \<open>midx\<close>, the map
  \<open>pendings\<close> from message call ids to pending entries, the promises created so far and
  the armed timers. A promise is known by its position in \<open>promises\<close>; its \<open>resolve\<close> and
  \<open>reject\<close> functions settle it when it is pending and do nothing otherwise. A pending
  entry \<open>{ resolve, reject, timerID }\<close> is the promise these functions belong to and the
  timer id. An armed timer maps its id to what its callback captured: the promise whose
  \<open>reject\<close> it calls, and the call id. \<open>sent\<close> records what was emitted to the server.
  Payloads are JSON values, so no promise is ever resolved with a thenable.
\<close>

datatype promise = Pending | Fulfilled jsval | Rejected jsval

record client =
  midx :: nat
  pendings :: "string \<rightharpoonup> nat \<times> nat"
  promises :: "promise list"
  timers :: "nat \<rightharpoonup> nat \<times> string"
  next_timer :: nat
  sent :: "(string \<times> jsval) list"

definition new_Client :: client where
  "new_Client = \<lparr>midx = 0, pendings = Map.empty, promises = [], timers = Map.empty,
                 next_timer = 0, sent = []\<rparr>"

definition settle :: "nat \<Rightarrow> promise \<Rightarrow> promise list \<Rightarrow> promise list" where
  "settle p outcome ps =
     (if p < length ps \<and> ps ! p = Pending then ps[p := outcome] else ps)"

definition call_id :: "string \<Rightarrow> nat \<Rightarrow> string" where
  "call_id name k = name @ ''.'' @ show_nat k"

definition timeout_error :: "string \<Rightarrow> jsval" where
  "timeout_error cid =
     JObj [(''id'', JStr cid), (''message'', JStr ''IPC message dispatch timeout'')]"

text \<open>
  The method bound for the message \<open>name\<close>: it gives the promise it returns and the new
  state.
\<close>

definition call :: "client \<Rightarrow> string \<Rightarrow> jsval list \<Rightarrow> nat \<times> client" where
  "call c name args =
     (let cid = call_id name (midx c);
          p = length (promises c);
          timerID = next_timer c
      in (p, c\<lparr>midx := Suc (midx c),
                sent := sent c @ [(''message.'' @ name,
                                   JObj [(''id'', JStr cid), (''args'', JArr args)])],
                promises := promises c @ [Pending],
                timers := (timers c)(timerID \<mapsto> (p, cid)),
                next_timer := Suc timerID,
                pendings := (pendings c)(cid \<mapsto> (p, timerID))\<rparr>))"

text \<open>
  \<open>clear(id)\<close>: the promise of the pending entry, if there is one, and the state with the
  entry deleted and its timer cleared. \<open>None\<close> stands for the stub object.
\<close>

definition clear :: "client \<Rightarrow> string \<Rightarrow> nat option \<times> client" where
  "clear c cid =
     (case pendings c cid of
        None \<Rightarrow> (None, c)
      | Some (p, timerID) \<Rightarrow>
          (Some p, c\<lparr>pendings := (pendings c)(cid := None),
                     timers := (timers c)(timerID := None)\<rparr>))"

text \<open>
  The handlers \<open>resolve(data)\<close> and \<open>reject(data)\<close> registered for the topics
  \<open>message.<name>\<close> and \<open>error.<name>\<close>. Destructuring \<open>data\<close> throws when it is \<open>null\<close> or
  \<open>undefined\<close>; the state is then unchanged.
\<close>

definition deliver :: "(jsval \<Rightarrow> promise) \<Rightarrow> client \<Rightarrow> jsval \<Rightarrow> error option \<times> client" where
  "deliver outcome c data =
     (case get data ''id'' of
        Inl e \<Rightarrow> (Some e, c)
      | Inr cid \<Rightarrow>
          (case get data ''message'' of
             Inl e \<Rightarrow> (Some e, c)
           | Inr message \<Rightarrow>
               (case clear c (to_key cid) of
                  (None, c') \<Rightarrow> (None, c')
                | (Some p, c') \<Rightarrow>
                    (None, c'\<lparr>promises := settle p (outcome message) (promises c')\<rparr>))))"

definition resolve :: "client \<Rightarrow> jsval \<Rightarrow> error option \<times> client" where
  "resolve c data = deliver Fulfilled c data"

definition reject :: "client \<Rightarrow> jsval \<Rightarrow> error option \<times> client" where
  "reject c data = deliver Rejected c data"

text \<open>
  The timer callback. Inside the promise executor the name \<open>reject\<close> is the executor's
  parameter, so the callback rejects the promise directly with \<open>{ id, message }\<close> and does
  not go through \<open>clear\<close>. A timer that was cleared or has fired does not fire.
\<close>

definition fire :: "client \<Rightarrow> nat \<Rightarrow> client" where
  "fire c timerID =
     (case timers c timerID of
        None \<Rightarrow> c
      | Some (p, cid) \<Rightarrow>
          c\<lparr>timers := (timers c)(timerID := None),
            promises := settle p (Rejected (timeout_error cid)) (promises c)\<rparr>)"

text \<open>What can happen to a connected client, and a run of such events.\<close>

datatype event =
    Call string "jsval list"
  | Response jsval
  | ErrorResponse jsval
  | Timeout nat

fun step :: "client \<Rightarrow> event \<Rightarrow> client" where
  "step c (Call name args) = snd (call c name args)"
| "step c (Response data) = snd (resolve c data)"
| "step c (ErrorResponse data) = snd (reject c data)"
| "step c (Timeout timerID) = fire c timerID"

definition run :: "client \<Rightarrow> event list \<Rightarrow> client" where
  "run c evs = foldl step c evs"

text \<open>
  The outcome the first event that concerns the call \<open>(id, timerID)\<close> gives it: a response
  or an error whose id is the call's, or the expiry of the call's timer.
\<close>

definition carries :: "string \<Rightarrow> jsval \<Rightarrow> bool" where
  "carries cid data = (case get data ''id'' of Inl e \<Rightarrow> False | Inr v \<Rightarrow> to_key v = cid)"

definition message_of :: "jsval \<Rightarrow> jsval" where
  "message_of data = (case get data ''message'' of Inl e \<Rightarrow> JUndefined | Inr m \<Rightarrow> m)"

fun first_outcome :: "string \<Rightarrow> nat \<Rightarrow> event list \<Rightarrow> promise" where
  "first_outcome cid timerID [] = Pending"
| "first_outcome cid timerID (Call name args # evs) = first_outcome cid timerID evs"
| "first_outcome cid timerID (Response data # evs) =
     (if carries cid data then Fulfilled (message_of data)
      else first_outcome cid timerID evs)"
| "first_outcome cid timerID (ErrorResponse data # evs) =
     (if carries cid data then Rejected (message_of data)
      else first_outcome cid timerID evs)"
| "first_outcome cid timerID (Timeout t # evs) =
     (if t = timerID then Rejected (timeout_error cid)
      else first_outcome cid timerID evs)"

text \<open>
  The invariant of a call that is still outstanding: its promise is pending, its entry
  and its timer are in place, and no other entry or timer refers to its promise or timer.
\<close>

definition outstanding :: "string \<Rightarrow> nat \<Rightarrow> nat \<Rightarrow> nat \<Rightarrow> client \<Rightarrow> bool" where
  "outstanding name k p t c \<longleftrightarrow>
     p < length (promises c) \<and> promises c ! p = Pending \<and>
     pendings c (call_id name k) = Some (p, t) \<and>
     timers c t = Some (p, call_id name k) \<and>
     t < next_timer c \<and> k < midx c \<and>
     (\<forall>cid q. pendings c cid = Some q \<and> cid \<noteq> call_id name k \<longrightarrow> fst q \<noteq> p \<and> snd q \<noteq> t) \<and>
     (\<forall>t' q. timers c t' = Some q \<and> t' \<noteq> t \<longrightarrow> fst q \<noteq> p)"

text \<open>Every entry and timer refers to a promise and a timer id that have been created.\<close>

definition consistent :: "client \<Rightarrow> bool" where
  "consistent c \<longleftrightarrow>
     (\<forall>cid q. pendings c cid = Some q \<longrightarrow> fst q < length (promises c) \<and> snd q < next_timer c) \<and>
     (\<forall>t q. timers c t = Some q \<longrightarrow> t < next_timer c \<and> fst q < length (promises c))"

text \<open>Whether an event concerns the call \<open>(cid, t)\<close>.\<close>

definition concerns :: "string \<Rightarrow> nat \<Rightarrow> event \<Rightarrow> bool" where
  "concerns cid t ev =
     (case ev of
        Call name args \<Rightarrow> False
      | Response data \<Rightarrow> carries cid data
      | ErrorResponse data \<Rightarrow> carries cid data
      | Timeout t' \<Rightarrow> t' = t)"

text \<open>A sample response.\<close>

definition hello_response :: jsval where
  "hello_response = JObj [(''id'', JStr ''getMessage.0''), (''message'', JStr ''hello'')]"

section \<open>The IPC server (lib/ipc/server.js)\<close>

text \<open>
  The listener \<open>Server.start\<close> registers for the topic \<open>message.<name>\<close>. A message handler
  is modelled by the outcome of \<open>await handler.apply(self, args)\<close>: \<open>Inr result\<close>, or
  \<open>Inl err\<close> when the handler throws or rejects with the value \<open>err\<close>.

  \<open>call_toString builtin v\<close> is the method call \<open>v.toString()\<close>. For a value that lists
  no property \<open>toString\<close>, the method is the built-in one of the value's class, and
  \<open>builtin v\<close> is the outcome of calling it: the value it returns, or the exception it
  throws. A listed property takes its place: a function outside the model, a compiled
  interface test (called without argument), or a value that cannot be called, for which
  the call throws a \<open>TypeError\<close>.
\<close>

definition call_toString :: "(jsval \<Rightarrow> error + jsval) \<Rightarrow> jsval \<Rightarrow> error + jsval" where
  "call_toString builtin v =
     (if nullish v then Inl EngineTypeError
      else (case listed v ''toString'' of
              None \<Rightarrow> builtin v
            | Some f \<Rightarrow>
                (case f of
                   JFun src \<Rightarrow> Inl (OpaqueCall src)
                 | JPred ts \<Rightarrow>
                     (case call_value f JUndefined of
                        Inl e \<Rightarrow> Inl e
                      | Inr ok \<Rightarrow> Inr (JBool ok))
                 | _ \<Rightarrow> Inl EngineTypeError)))"

text \<open>\<open>error_message\<close> is \<open>err.description || err.message || err.toString()\<close>.\<close>

definition error_message :: "(jsval \<Rightarrow> error + jsval) \<Rightarrow> jsval \<Rightarrow> error + jsval" where
  "error_message builtin err =
     (case get err ''description'' of
        Inl e \<Rightarrow> Inl e
      | Inr description \<Rightarrow>
          if truthy description then Inr description
          else (case get err ''message'' of
                  Inl e \<Rightarrow> Inl e
                | Inr message \<Rightarrow>
                    if truthy message then Inr message else call_toString builtin err))"

text \<open>
  An emission \<open>ipc.server.emit(socket, topic, payload)\<close>. The listener is an \<open>async\<close>
  function: an exception inside it becomes the rejection of the promise it returns.
  \<open>Inl e\<close> stands for that promise rejecting with \<open>e\<close>, nothing having been emitted. The
  emission itself is taken to return normally.
\<close>

type_synonym emission = "nat \<times> string \<times> jsval"

definition on_message ::
  "(jsval \<Rightarrow> error + jsval) \<Rightarrow> string \<Rightarrow> (jsval list \<Rightarrow> jsval + jsval) \<Rightarrow> jsval \<Rightarrow> nat
     \<Rightarrow> error + emission" where
  "on_message builtin name handler data socket =
     (case get data ''id'' of
        Inl e \<Rightarrow> Inl e
      | Inr cid \<Rightarrow>
          (case get data ''args'' of
             Inl e \<Rightarrow> Inl e
           | Inr args \<Rightarrow>
               (case handler (case args of JArr xs \<Rightarrow> xs | _ \<Rightarrow> [args]) of
                  Inr result \<Rightarrow>
                    Inr (socket, ''message.'' @ name,
                         JObj [(''id'', cid), (''message'', result)])
                | Inl err \<Rightarrow>
                    (case error_message builtin err of
                       Inl e \<Rightarrow> Inl e
                     | Inr message \<Rightarrow>
                         Inr (socket, ''error.'' @ name,
                              JObj [(''id'', cid), (''message'', message)])))))"


text \<open>
  Sample values: a call payload, and the built-in string conversion of strings, numbers,
  booleans and plain objects.
\<close>

definition demo_call :: jsval where
  "demo_call = JObj [(''id'', JStr ''getMessage.0''), (''args'', JArr [])]"


section \<open>Properties of compiled interface definitions\<close>





lemma set_insert_index: "set (insert_index i kv ps) = insert kv (set ps)"
  by (induction ps) (auto split: option.splits)

lemma names_replace: "map fst (map (\<lambda>p. if fst p = name then (name, v) else p) ps) = map fst ps"
  by (induction ps) auto

lemma values_replace:
  "snd ` set (map (\<lambda>p. if fst p = name then (name, v) else p) ps) \<subseteq> insert v (snd ` set ps)"
  by (induction ps) auto

lemma names_put:
  "fst ` set (put ps name v) =
     (if name = ''__proto__'' then fst ` set ps else insert name (fst ` set ps))"
proof -
  have "fst ` set (map (\<lambda>p. if fst p = name then (name, v) else p) ps) = fst ` set ps"
    using names_replace [of name v ps] by (metis set_map)
  then show ?thesis
    by (auto simp: put_def set_insert_index split: option.splits)
qed

lemma values_put: "snd ` set (put ps name v) \<subseteq> insert v (snd ` set ps)"
  using values_replace [of name v ps]
  by (auto simp: put_def set_insert_index split: option.splits)

lemma names_foldl_put:
  "fst ` set (foldl (\<lambda>def item. put def (to_key item) v) acc items)
     = fst ` set acc \<union> (to_key ` set items - {''__proto__''})"
  by (induction items arbitrary: acc) (auto simp: names_put)

lemma values_foldl_put:
  "snd ` set (foldl (\<lambda>def item. put def (to_key item) v) acc items) \<subseteq> insert v (snd ` set acc)"
proof (induction items arbitrary: acc)
  case Nil
  show ?case by auto
next
  case (Cons item items)
  have "snd ` set (foldl (\<lambda>def item. put def (to_key item) v) (put acc (to_key item) v) items)
          \<subseteq> insert v (snd ` set (put acc (to_key item) v))"
    by (rule Cons.IH)
  also have "\<dots> \<subseteq> insert v (snd ` set acc)"
    using values_put [of acc "to_key item" v] by auto
  finally show ?case by simp
qed

lemma names_array_to_object:
  "fst ` set (array_to_object items) = to_key ` set items - {''__proto__''}"
  using names_foldl_put [of "JStr ''object''" "[]" items] by (simp add: array_to_object_def)

lemma values_array_to_object:
  "p \<in> set (array_to_object items) \<Longrightarrow> snd p = JStr ''object''"
  using values_foldl_put [of "JStr ''object''" "[]" items] by (auto simp: array_to_object_def)

lemma tests_of_object_tags:
  "(\<And>p. p \<in> set ps \<Longrightarrow> snd p = JStr ''object'')
     \<Longrightarrow> tests_of ps = Inr (map (\<lambda>name. (name, IsaKind KObject)) (map fst ps))"
  by (induction ps) (auto simp: Tests_def)

lemma get_nullish: "nullish obj \<Longrightarrow> get obj name = Inl EngineTypeError"
  by (auto simp: nullish_def)

lemma get_total: "\<not> nullish obj \<Longrightarrow> \<exists>v. get obj name = Inr v"
  by (cases obj) (auto simp: nullish_def)

lemma iftest_object_tags:
  "\<not> nullish obj \<Longrightarrow>
   iftest_from (map (\<lambda>name. (name, IsaKind KObject)) names) ok obj =
     Inr (ok \<and> (\<forall>name \<in> set names. \<exists>v. get obj name = Inr v \<and> typeof v = ''object''))"
proof (induction names arbitrary: ok)
  case Nil
  show ?case by simp
next
  case (Cons name names)
  from get_total [OF Cons.prems, of name] obtain v where v: "get obj name = Inr v" by blast
  show ?case
    using Cons.IH [OF Cons.prems] v by auto
qed

lemma iftest_object_tags_nullish:
  "nullish obj \<Longrightarrow>
   iftest_from (map (\<lambda>name. (name, IsaKind KObject)) names) True obj =
     (if names = [] then Inr True else Inl EngineTypeError)"
  by (cases names) (auto simp: get_nullish)

lemma call_object_tags_cong:
  assumes "set names = set names'"
  shows "call_value (JPred (map (\<lambda>name. (name, IsaKind KObject)) names)) obj
       = call_value (JPred (map (\<lambda>name. (name, IsaKind KObject)) names')) obj"
proof (cases "nullish obj")
  case True
  from assms have "names = [] \<longleftrightarrow> names' = []" by auto
  with True show ?thesis by (simp add: iftest_object_tags_nullish)
next
  case False
  with assms show ?thesis by (simp add: iftest_object_tags)
qed

lemma marker_not_index: "array_index ''__IsIFDef'' = None"
  by (simp add: array_index_def digit_of_def)

lemma compile_name_list:
  "compile (JArr items) =
     Inr (JPred (map (\<lambda>name. (name, IsaKind KObject)) (map fst (array_to_object items))))"
  using tests_of_object_tags [of "array_to_object items"] values_array_to_object [of _ items]
  by (simp add: marker_not_index)

lemma own_absent:
  assumes "name \<notin> fst ` set ps"
  shows "own ps name = JUndefined"
proof -
  from assms have "map_of ps name = None"
    by (simp add: map_of_eq_None_iff)
  then show ?thesis
    by (simp add: own_def)
qed

lemma compile_object_descriptor:
  assumes "''__IsIFDef'' \<notin> set names"
  shows "compile (object_descriptor names) =
     Inr (JPred (map (\<lambda>name. (name, IsaKind KObject)) (remdups names)))"
proof -
  let ?ps = "map (\<lambda>name. (name, JStr ''object'')) (remdups names)"
  have "own ?ps ''__IsIFDef'' = JUndefined"
    using assms by (intro own_absent) (auto simp: image_iff)
  moreover have "tests_of ?ps = Inr (map (\<lambda>name. (name, IsaKind KObject)) (map fst ?ps))"
    by (rule tests_of_object_tags) auto
  moreover have "map fst ?ps = remdups names"
    by (simp add: comp_def)
  ultimately show ?thesis
    by (simp add: object_descriptor_def)
qed

text \<open>
  Claim C8, as amended. Compiling a list of property names and compiling the object
  definition that gives each listed name the type \<open>'object'\<close> yield predicates that agree
  on every candidate (same boolean, or the same exception), provided the list names
  neither the marker \<open>__IsIFDef\<close> nor \<open>__proto__\<close>. The instance below it is the
  list \<open>["a","b"]\<close> against \<open>{"a":"object","b":"object"}\<close>.
\<close>

theorem name_list_equivalent_to_object_descriptor:
  assumes "''__IsIFDef'' \<notin> set names" and "''__proto__'' \<notin> set names"
  shows "conforms (JArr (map JStr names)) obj = conforms (object_descriptor names) obj"
proof -
  let ?tests = "\<lambda>names. JPred (map (\<lambda>name. (name, IsaKind KObject)) names)"
  have "to_key ` set (map JStr names) = set names"
    by (simp add: image_image)
  then have names: "set (map fst (array_to_object (map JStr names))) = set (remdups names)"
    using assms(2) names_array_to_object [of "map JStr names"] by simp
  have l: "conforms (JArr (map JStr names)) obj
             = call_value (?tests (map fst (array_to_object (map JStr names)))) obj"
    unfolding conforms_def compile_name_list by simp
  have r: "conforms (object_descriptor names) obj = call_value (?tests (remdups names)) obj"
    unfolding conforms_def compile_object_descriptor [OF assms(1)] by simp
  show ?thesis
    unfolding l r using names by (rule call_object_tags_cong)
qed

theorem name_list_equivalent_to_object_descriptor_witness:
  "\<forall>obj. conforms (JArr [JStr ''a'', JStr ''b'']) obj
        = conforms (JObj [(''a'', JStr ''object''), (''b'', JStr ''object'')]) obj"
  using name_list_equivalent_to_object_descriptor [of "[''a'', ''b'']"]
  by (simp add: object_descriptor_def)

text \<open>
  Claim C8 as stated fails at the list \<open>["__IsIFDef"]\<close>: the list compiles to a predicate
  that tests the property, while \<open>compile\<close> takes the object \<open>{"__IsIFDef":"object"}\<close> for
  an already compiled definition and returns it unchanged, so that applying the result
  to a candidate throws.
\<close>

theorem marker_name_counterexample:
  "conforms (JArr [JStr ''__IsIFDef'']) (JObj [(''__IsIFDef'', JObj [])])
     \<noteq> conforms (object_descriptor [''__IsIFDef'']) (JObj [(''__IsIFDef'', JObj [])])"
  by (simp add: conforms_def object_descriptor_def own_def array_to_object_def put_def
                array_index_def digit_of_def Tests_def)

section \<open>Properties of service-bind callbacks\<close>

lemma remove_last_filter: "filter P (remove_last x xs) = remove_last x (filter P xs)"
  by (simp add: remove_last_def rev_filter [symmetric] filter_remove1)

lemma remove_last_absent: "x \<notin> set xs \<Longrightarrow> remove_last x xs = xs"
  by (simp add: remove_last_def remove1_idem)

lemma remove_last_single [simp]: "remove_last x [x] = []"
  by (simp add: remove_last_def)

lemma mentioning_removeListener:
  "mentioning c (removeListener a ev l) = remove_last (ev, l) (mentioning c a)"
  by (simp add: mentioning_def removeListener_def remove_last_filter)

lemma mentioning_removeListener_other:
  assumes "\<not> l_mentions c l"
  shows "mentioning c (removeListener a ev l) = mentioning c a"
proof -
  from assms have "(ev, l) \<notin> set (mentioning c a)"
    by (simp add: mentioning_def)
  then show ?thesis
    unfolding mentioning_removeListener by (rule remove_last_absent)
qed

lemma mentioning_base_on:
  "mentioning c (base_on a ev l)
     = mentioning c a @ (if l_mentions c l then [(ev, l)] else [])"
  by (simp add: mentioning_def base_on_def)

lemma mentioning_subscribe_bind:
  "mentioning c (subscribe_bind a name cb once)
     = mentioning c a @
       (if cb_mentions c cb then [(''service-bind'', BindHandler (next_closure a) name cb once)]
        else [])"
  by (simp add: subscribe_bind_def mentioning_base_on) (simp add: mentioning_def)

lemma calls_of_simps [simp]:
  "calls_of c (removeListener a ev l) = calls_of c a"
  "calls_of c (base_on a ev l) = calls_of c a"
  "calls_of c (subscribe_bind a name cb once) = calls_of c a"
  "calls_of c (a\<lparr>next_closure := k\<rparr>) = calls_of c a"
  "calls_of c (a\<lparr>delegated := d\<rparr>) = calls_of c a"
  "calls_of c (a\<lparr>services := s\<rparr>) = calls_of c a"
  "calls_of c (a\<lparr>services_proto := p\<rparr>) = calls_of c a"
  "calls_of c (assign a name v) = calls_of c a"
  by (simp_all add: calls_of_def removeListener_def base_on_def subscribe_bind_def assign_def)

lemma mentioning_simps [simp]:
  "mentioning c (a\<lparr>next_closure := k\<rparr>) = mentioning c a"
  "mentioning c (a\<lparr>delegated := d\<rparr>) = mentioning c a"
  "mentioning c (a\<lparr>services := s\<rparr>) = mentioning c a"
  "mentioning c (a\<lparr>services_proto := p\<rparr>) = mentioning c a"
  "mentioning c (a\<lparr>invoked := i\<rparr>) = mentioning c a"
  "mentioning c (assign a name v) = mentioning c a"
  by (simp_all add: mentioning_def assign_def)

lemma listeners_assign [simp]: "listeners (assign a name v) = listeners a"
  by (simp add: assign_def)

lemma call_args_append: "call_args c (xs @ ys) = call_args c xs @ call_args c ys"
  by (induction c xs rule: call_args.induct) auto

lemma calls_of_invoked:
  "calls_of c (a\<lparr>invoked := invoked a @ [CallbackCalled n event]\<rparr>)
     = calls_of c a @ (if n = c then [event] else [])"
  "calls_of c (a\<lparr>invoked := invoked a @ [ListenerCalled n ev event]\<rparr>) = calls_of c a"
  by (simp_all add: calls_of_def call_args_append)

lemma addEventListener_On:
  "addEventListener a eventName l On =
     (case indexOf CHR '':'' eventName of
        Some (Suc i) \<Rightarrow>
          (let sourceName = take (Suc i) eventName;
               source = service_at a sourceName
           in if source = JUndefined
              then (None, subscribe_bind a sourceName (Resubscribe eventName l On) True)
              else (case source of
                      JEmitter e ps \<Rightarrow>
                        source_method a e ps On (drop (Suc (Suc i)) eventName) l
                    | _ \<Rightarrow>
                        (Some (Error (''Event source must be an EventEmitter: '' @
                                      sourceName)), a)))
      | Some 0 \<Rightarrow> (None, base_on a (drop 1 eventName) l)
      | None \<Rightarrow> (None, base_on a eventName l))"
  by (subst addEventListener.simps) (simp split: option.splits nat.splits)

lemma addEventListener_Once:
  "addEventListener a eventName l Once =
     (case indexOf CHR '':'' eventName of
        Some (Suc i) \<Rightarrow>
          (let sourceName = take (Suc i) eventName;
               source = service_at a sourceName
           in if source = JUndefined
              then (None, subscribe_bind a sourceName (Resubscribe eventName l Once) True)
              else (case source of
                      JEmitter e ps \<Rightarrow>
                        source_method a e ps Once (drop (Suc (Suc i)) eventName) l
                    | _ \<Rightarrow>
                        (Some (Error (''Event source must be an EventEmitter: '' @
                                      sourceName)), a)))
      | Some 0 \<Rightarrow>
          addEventListener (a\<lparr>next_closure := Suc (next_closure a)\<rparr>) (drop 1 eventName)
            (OnceWrapper (next_closure a) l) On
      | None \<Rightarrow>
          addEventListener (a\<lparr>next_closure := Suc (next_closure a)\<rparr>) eventName
            (OnceWrapper (next_closure a) l) On)"
  by (subst addEventListener.simps) (simp split: option.splits nat.splits)

lemma frame_source_method:
  "source_method a e ps m ev l = (r, a') \<Longrightarrow> same_for c a a'"
  by (auto simp: source_method_def same_for_def
        split: option.splits jsval.splits sum.splits)

lemma frame_addEventListener_On:
  assumes "\<not> l_mentions c l" and "addEventListener a eventName l On = (r, a')"
  shows "same_for c a a'"
  using assms
  by (auto simp: addEventListener_On same_for_def Let_def mentioning_base_on
        mentioning_subscribe_bind split: option.splits nat.splits if_splits jsval.splits
        dest!: frame_source_method [where c = c])

lemma frame_addEventListener:
  assumes "\<not> l_mentions c l" and "addEventListener a eventName l m = (r, a')"
  shows "same_for c a a'"
proof (cases m)
  case On
  with assms show ?thesis by (auto intro: frame_addEventListener_On)
next
  case Once
  have w: "\<not> l_mentions c (OnceWrapper (next_closure a) l)" using assms(1) by simp
  show ?thesis
    using assms Once frame_addEventListener_On [OF w]
    by (auto simp: addEventListener_Once same_for_def Let_def mentioning_subscribe_bind
          split: option.splits nat.splits if_splits jsval.splits
          dest!: frame_source_method [where c = c])
qed

lemma frame_invoke_callback:
  assumes "\<not> cb_mentions c cb" and "invoke_callback a cb event = (r, a')"
  shows "same_for c a a'"
  using assms
  by (cases cb) (auto simp: calls_of_invoked same_for_def dest: frame_addEventListener)

lemma frame_call_listener:
  assumes "\<not> l_mentions c l" and "call_listener a ev l event = (r, a')"
  shows "same_for c a a'"
  using assms
proof (induction a ev l event arbitrary: r a' rule: call_listener.induct)
  case (1 a ev n event)
  then show ?case by (auto simp: same_for_def calls_of_invoked)
next
  case (2 a ev i name cb once event)
  then show ?case
    by (auto simp: same_for_def mentioning_removeListener_other
          split: sum.splits if_splits prod.splits option.splits
          dest!: frame_invoke_callback [rotated])
next
  case (3 a ev i iftest cb event)
  then show ?case
    by (auto simp: same_for_def split: sum.splits if_splits
          dest!: frame_invoke_callback [rotated])
next
  case (4 a ev i l event)
  have "same_for c (removeListener a ev (OnceWrapper i l)) a'"
    using "4.IH" [of r a'] "4.prems" by simp
  then show ?case
    using "4.prems"(1) by (simp add: same_for_def mentioning_removeListener_other)
qed


lemma same_for_refl [simp]: "same_for c a a"
  by (simp add: same_for_def)

lemma same_for_trans: "same_for c a b \<Longrightarrow> same_for c b d \<Longrightarrow> same_for c a d"
  by (simp add: same_for_def)

lemma frame_emit_to:
  assumes "\<forall>l \<in> set ls. \<not> l_mentions c l" and "emit_to a ev event ls = (r, a')"
  shows "same_for c a a'"
  using assms
proof (induction ls arbitrary: a)
  case Nil
  then show ?case by simp
next
  case (Cons l ls)
  obtain r1 a1 where step: "call_listener a ev l event = (r1, a1)"
    by (cases "call_listener a ev l event")
  from Cons.prems(1) have "same_for c a a1"
    by (intro frame_call_listener [OF _ step]) simp
  moreover have "same_for c a1 a'"
  proof (cases r1)
    case None
    with Cons.prems step have "emit_to a1 ev event ls = (r, a')" by simp
    with Cons.prems(1) show ?thesis by (intro Cons.IH) auto
  next
    case (Some e)
    with Cons.prems step show ?thesis by simp
  qed
  ultimately show ?case by (rule same_for_trans)
qed

lemma filter_snapshot:
  "filter P (map snd (filter Q xs)) = map snd (filter Q (filter (\<lambda>p. P (snd p)) xs))"
  by (induction xs) auto

lemma snapshot_mentioning:
  "filter (l_mentions c) (map snd (filter (\<lambda>p. fst p = ev) (listeners a)))
     = map snd (filter (\<lambda>p. fst p = ev) (mentioning c a))"
  by (simp add: mentioning_def filter_snapshot)

lemma only_mention:
  assumes "filter P ls = [h]" and "l \<in> set ls" and "P l"
  shows "l = h"
proof -
  from assms(2,3) have "l \<in> set (filter P ls)" by simp
  with assms(1) show ?thesis by simp
qed

lemma get_bind_event_name [simp]: "get (bind_event name service) ''name'' = Inr (JStr name)"
  by (simp add: bind_event_def own_def)

lemma emit_to_other_name:
  assumes "\<forall>l \<in> set ls. l_mentions c l \<longrightarrow> l = BindHandler i x (UserCallback c) True"
    and "get event ''name'' = Inr (JStr y)" and "y \<noteq> x"
    and "emit_to a ev event ls = (r, a')"
  shows "same_for c a a'"
  using assms
proof (induction ls arbitrary: a)
  case Nil
  then show ?case by simp
next
  case (Cons l ls)
  obtain r1 a1 where step: "call_listener a ev l event = (r1, a1)"
    by (cases "call_listener a ev l event")
  have "same_for c a a1"
  proof (cases "l_mentions c l")
    case True
    with Cons.prems(1) have "l = BindHandler i x (UserCallback c) True" by simp
    with step Cons.prems(2,3) show ?thesis by simp
  next
    case False
    then show ?thesis using step by (rule frame_call_listener)
  qed
  moreover have "same_for c a1 a'"
  proof (cases r1)
    case None
    with Cons.prems step have "emit_to a1 ev event ls = (r, a')" by simp
    with Cons.prems show ?thesis by (intro Cons.IH) auto
  next
    case (Some e)
    with Cons.prems step show ?thesis by simp
  qed
  ultimately show ?case by (rule same_for_trans)
qed

lemma emit_to_fire:
  assumes "filter (l_mentions c) ls = [BindHandler i x (UserCallback c) True]"
    and "mentioning c a = [(''service-bind'', BindHandler i x (UserCallback c) True)]"
    and "get event ''name'' = Inr (JStr x)"
    and "emit_to a ''service-bind'' event ls = (None, a')"
  shows "mentioning c a' = [] \<and> calls_of c a' = calls_of c a @ [event]"
  using assms
proof (induction ls arbitrary: a)
  case Nil
  then show ?case by simp
next
  case (Cons l ls)
  let ?h = "BindHandler i x (UserCallback c) True"
  obtain r1 a1 where step: "call_listener a ''service-bind'' l event = (r1, a1)"
    by (cases "call_listener a ''service-bind'' l event")
  with Cons.prems(4) have r1: "r1 = None" and rest: "emit_to a1 ''service-bind'' event ls = (None, a')"
    by (auto split: option.splits)
  show ?case
  proof (cases "l_mentions c l")
    case True
    with Cons.prems(1) have l: "l = ?h" and others: "filter (l_mentions c) ls = []"
      by auto
    from step l Cons.prems(3)
    have a1: "a1 = removeListener (a\<lparr>invoked := invoked a @ [CallbackCalled c event]\<rparr>)
                     ''service-bind'' ?h"
      by simp
    have "mentioning c a1 = []"
      by (simp add: a1 mentioning_removeListener Cons.prems(2))
    moreover have "calls_of c a1 = calls_of c a @ [event]"
      by (simp add: a1 calls_of_invoked)
    moreover from others have "\<forall>l \<in> set ls. \<not> l_mentions c l"
      by (simp add: filter_empty_conv)
    then have "same_for c a1 a'" using rest by (rule frame_emit_to)
    ultimately show ?thesis by (simp add: same_for_def)
  next
    case False
    then have "same_for c a a1" using step by (rule frame_call_listener)
    moreover from False Cons.prems(1) have "filter (l_mentions c) ls = [?h]" by simp
    ultimately show ?thesis
      using Cons.IH [of a1] Cons.prems(2,3) rest by (simp add: same_for_def)
  qed
qed

lemma mentioning_empty_iff: "mentioning c a = [] \<longleftrightarrow> (\<forall>p \<in> set (listeners a). \<not> l_mentions c (snd p))"
  by (simp add: mentioning_def filter_empty_conv)

lemma bind_unaware:
  assumes "mentioning c a = []"
  shows "same_for c a (snd (bind a name service))"
proof -
  let ?a = "assign a name service"
  obtain r a' where b: "bind a name service = (r, a')" by (cases "bind a name service")
  from assms have "\<forall>l \<in> set (map snd (filter (\<lambda>p. fst p = ''service-bind'') (listeners ?a))).
                     \<not> l_mentions c l"
    by (auto simp: mentioning_empty_iff)
  then have "same_for c ?a a'"
    using b unfolding bind_def emit_def by (rule frame_emit_to)
  then show ?thesis by (simp add: b same_for_def)
qed

lemma bind_other_name:
  assumes "mentioning c a = [(''service-bind'', BindHandler i x (UserCallback c) True)]"
    and "name \<noteq> x"
  shows "same_for c a (snd (bind a name service))"
proof -
  let ?a = "assign a name service"
  let ?ls = "map snd (filter (\<lambda>p. fst p = ''service-bind'') (listeners ?a))"
  obtain r a' where b: "bind a name service = (r, a')" by (cases "bind a name service")
  have "filter (l_mentions c) ?ls = [BindHandler i x (UserCallback c) True]"
    using assms(1) by (simp add: snapshot_mentioning)
  then have "\<forall>l \<in> set ?ls. l_mentions c l \<longrightarrow> l = BindHandler i x (UserCallback c) True"
    by (blast dest: only_mention)
  then have "same_for c ?a a'"
    using b assms(2) unfolding bind_def emit_def
    by (intro emit_to_other_name [where y = name and x = x and i = i]) auto
  then show ?thesis by (simp add: b same_for_def)
qed

lemma bind_fires:
  assumes "mentioning c a = [(''service-bind'', BindHandler i x (UserCallback c) True)]"
    and "bind a x service = (None, a')"
  shows "mentioning c a' = [] \<and> calls_of c a' = calls_of c a @ [bind_event x service]"
proof -
  let ?a = "assign a x service"
  let ?ls = "map snd (filter (\<lambda>p. fst p = ''service-bind'') (listeners ?a))"
  have "filter (l_mentions c) ?ls = [BindHandler i x (UserCallback c) True]"
    using assms(1) by (simp add: snapshot_mentioning)
  moreover have "mentioning c ?a = [(''service-bind'', BindHandler i x (UserCallback c) True)]"
    using assms(1) by simp
  moreover have "emit_to ?a ''service-bind'' (bind_event x service) ?ls = (None, a')"
    using assms(2) by (simp add: bind_def emit_def)
  ultimately have "mentioning c a' = [] \<and> calls_of c a' = calls_of c ?a @ [bind_event x service]"
    by (intro emit_to_fire) auto
  then show ?thesis by simp
qed

lemma bind_all_unaware:
  "mentioning c a = [] \<Longrightarrow> same_for c a (bind_all a bs)"
proof (induction bs arbitrary: a)
  case Nil
  show ?case by simp
next
  case (Cons b bs)
  have 1: "same_for c a (snd (bind a (fst b) (snd b)))"
    using Cons.prems by (rule bind_unaware)
  then have "mentioning c (snd (bind a (fst b) (snd b))) = []"
    using Cons.prems by (simp add: same_for_def)
  then have "same_for c (snd (bind a (fst b) (snd b))) (bind_all (snd (bind a (fst b) (snd b))) bs)"
    by (rule Cons.IH)
  with 1 show ?case by (auto intro: same_for_trans)
qed

lemma bind_all_other_names:
  assumes "mentioning c a = [(''service-bind'', BindHandler i x (UserCallback c) True)]"
    and "\<forall>b \<in> set bs. fst b \<noteq> x"
  shows "same_for c a (bind_all a bs)"
  using assms
proof (induction bs arbitrary: a)
  case Nil
  show ?case by simp
next
  case (Cons b bs)
  let ?a1 = "snd (bind a (fst b) (snd b))"
  have 1: "same_for c a ?a1"
    using Cons.prems by (intro bind_other_name [where i = i and x = x]) auto
  then have "mentioning c ?a1 = [(''service-bind'', BindHandler i x (UserCallback c) True)]"
    using Cons.prems(1) by (simp add: same_for_def)
  then have "same_for c ?a1 (bind_all ?a1 bs)"
    using Cons.prems(2) by (intro Cons.IH) auto
  with 1 show ?case by (auto intro: same_for_trans)
qed


lemma onServiceBind_unbound:
  "service_at a name = JUndefined \<Longrightarrow>
   onServiceBind a (JStr name) cb once = (None, subscribe_bind a name cb once)"
  by (simp add: onServiceBind_def)

lemma addEventListener_plain:
  "addEventListener a ''service-bind'' l On = (None, base_on a ''service-bind'' l)"
  by (simp add: addEventListener_On)


text \<open>
  How often \<open>onServiceBind\<close> calls the callback. Let \<open>c\<close> be a callback that no listener
  of the backbone leads to. If \<open>onServiceBind(x, c)\<close> is called (with \<open>once = true\<close>) while
  the read \<open>this.services[x]\<close> gives \<open>undefined\<close>, on a registry whose prototype is
  \<open>Object.prototype\<close>, then \<open>c\<close> is not called while other names are bound, and once the
  next \<open>bind(x, v)\<close> returns, \<open>c\<close> has been called exactly once more, with
  \<open>{name: x, service: v}\<close>, whatever is bound afterwards. If it is called while the read
  gives a value \<open>s\<close> other than \<open>undefined\<close> (a bound service, or a member the registry
  inherits, such as \<open>toString\<close>), \<open>c\<close> is called once with \<open>{name: x, service: s}\<close> before
  \<open>onServiceBind\<close> returns, and never again by later binds.
\<close>

lemma onServiceBind_calls_once:
  assumes "mentioning c a = []"
  shows "(services_proto a = ObjectPrototype \<and> service_at a x = JUndefined \<and>
          (\<forall>b \<in> set pre. fst b \<noteq> x) \<and>
          bind (bind_all (snd (onServiceBind a (JStr x) (UserCallback c) True)) pre) x v
            = (None, a')
          \<longrightarrow> fst (onServiceBind a (JStr x) (UserCallback c) True) = None
            \<and> calls_of c (bind_all (snd (onServiceBind a (JStr x) (UserCallback c) True)) pre)
                = calls_of c a
            \<and> calls_of c (bind_all a' post) = calls_of c a @ [bind_event x v])
       \<and> (service_at a x \<noteq> JUndefined
          \<longrightarrow> fst (onServiceBind a (JStr x) (UserCallback c) True) = None
            \<and> calls_of c (snd (onServiceBind a (JStr x) (UserCallback c) True))
                = calls_of c a @ [bind_event x (service_at a x)]
            \<and> calls_of c (bind_all (snd (onServiceBind a (JStr x) (UserCallback c) True)) post)
                = calls_of c a @ [bind_event x (service_at a x)])"
proof (intro conjI impI)
  let ?h = "BindHandler (next_closure a) x (UserCallback c) True"
  let ?a1 = "subscribe_bind a x (UserCallback c) True"
  assume pre: "services_proto a = ObjectPrototype \<and> service_at a x = JUndefined \<and>
          (\<forall>b \<in> set pre. fst b \<noteq> x) \<and>
          bind (bind_all (snd (onServiceBind a (JStr x) (UserCallback c) True)) pre) x v
            = (None, a')"
  then have reg: "onServiceBind a (JStr x) (UserCallback c) True = (None, ?a1)"
    by (simp add: onServiceBind_unbound)
  show "fst (onServiceBind a (JStr x) (UserCallback c) True) = None"
    by (simp add: reg)
  have m1: "mentioning c ?a1 = [(''service-bind'', ?h)]"
    by (simp add: mentioning_subscribe_bind assms)
  have s1: "same_for c ?a1 (bind_all ?a1 pre)"
    using m1 pre by (intro bind_all_other_names [where i = "next_closure a" and x = x]) auto
  then show "calls_of c (bind_all (snd (onServiceBind a (JStr x) (UserCallback c) True)) pre)
               = calls_of c a"
    by (simp add: reg same_for_def)
  from s1 m1 have m2: "mentioning c (bind_all ?a1 pre) = [(''service-bind'', ?h)]"
    by (simp add: same_for_def)
  from pre have "bind (bind_all ?a1 pre) x v = (None, a')"
    by (simp add: reg)
  with m2 have fired: "mentioning c a' = [] \<and>
      calls_of c a' = calls_of c (bind_all ?a1 pre) @ [bind_event x v]"
    by (rule bind_fires)
  then have "same_for c a' (bind_all a' post)"
    by (intro bind_all_unaware) simp
  with fired s1 show "calls_of c (bind_all a' post) = calls_of c a @ [bind_event x v]"
    by (simp add: same_for_def)
next
  let ?e = "bind_event x (service_at a x)"
  let ?a1 = "a\<lparr>invoked := invoked a @ [CallbackCalled c ?e]\<rparr>"
  assume bound: "service_at a x \<noteq> JUndefined"
  then have reg: "onServiceBind a (JStr x) (UserCallback c) True = (None, ?a1)"
    by (simp add: onServiceBind_def)
  show "fst (onServiceBind a (JStr x) (UserCallback c) True) = None"
    by (simp add: reg)
  show now: "calls_of c (snd (onServiceBind a (JStr x) (UserCallback c) True))
               = calls_of c a @ [?e]"
    by (simp add: reg calls_of_invoked)
  have "mentioning c ?a1 = []"
    using assms by simp
  then have "same_for c ?a1 (bind_all ?a1 post)"
    by (rule bind_all_unaware)
  then show "calls_of c (bind_all (snd (onServiceBind a (JStr x) (UserCallback c) True)) post)
               = calls_of c a @ [?e]"
    using now by (simp add: reg same_for_def)
qed

text \<open>
  A name the registry inherits from \<open>Object.prototype\<close> reads as defined on a fresh
  backbone: \<open>onServiceBind\<close> calls the callback at once with the inherited member.
\<close>

lemma onServiceBind_inherited_name:
  "onServiceBind new_App (JStr ''toString'') (UserCallback 0) True
     = (None, new_App\<lparr>invoked :=
                [CallbackCalled 0 (bind_event ''toString'' (native ''toString''))]\<rparr>)"
  by (simp add: onServiceBind_def service_at_def new_App_def inherited_def own_def
        object_prototype_def native_def Let_def)

text \<open>
  A service bound under the name \<open>__proto__\<close> is not stored as a property: an object
  becomes the prototype of the registry, so that its properties are found by later
  reads; a number is dropped.
\<close>

lemma bind_proto_replaces_prototype:
  "services (snd (bind new_App ''__proto__'' (JObj [(''db'', JNum 1)]))) = []
   \<and> service_at (snd (bind new_App ''__proto__'' (JObj [(''db'', JNum 1)]))) ''db'' = JNum 1
   \<and> service_at (snd (bind new_App ''__proto__'' (JNum 5))) ''__proto__''
       = JObj object_prototype"
  by (simp add: bind_def emit_def emit_to.simps assign_def new_App_def reaches_accessor_def
        is_object_def service_at_def inherited_def listed_def)

text \<open>
  Claim C5 does not hold of the code. The callback is called once, but with the
  notification \<open>{name, service}\<close> of the bind, not with the bound instance: both when
  \<open>onServiceBind('db', cb)\<close> comes before \<open>bind('db', db)\<close> and when it comes after, the
  one call of the callback has the argument \<open>{name: 'db', service: db}\<close>. The comment in
  \<open>onServiceBind\<close> (\<open>invoke the callback with the service\<close>), the README and the test suite
  \<open>forward dependency\<close> take the argument to be the instance: the test stores it as
  \<open>service.db\<close> and calls \<open>service.db.getMessage()\<close>, which is a member of the instance
  and not of the notification. \<open>lib/app.js\<close> passes the same object.
\<close>

theorem onServiceBind_passes_event_not_instance:
  "calls_of 0 (snd (bind (snd (onServiceBind new_App (JStr ''db'') (UserCallback 0) True))
                      ''db'' demo_db))
     = [JObj [(''name'', JStr ''db''), (''service'', demo_db)]]
   \<and> calls_of 0 (snd (onServiceBind (snd (bind new_App ''db'' demo_db)) (JStr ''db'')
                        (UserCallback 0) True))
     = [JObj [(''name'', JStr ''db''), (''service'', demo_db)]]
   \<and> get (JObj [(''name'', JStr ''db''), (''service'', demo_db)]) ''getMessage''
     = Inr JUndefined
   \<and> get demo_db ''getMessage'' = Inr (JFun ''() => settings.message'')"
  by code_simp

section \<open>Properties of scoped event subscription\<close>













lemma kept_refl [simp]: "kept a a"
  by (simp add: kept_def)



























section \<open>Properties of start\<close>

lemma start_never_returns_nonempty:
  "ls \<noteq> [] \<Longrightarrow> fst (start (Layers ls) log) \<noteq> None"
  by (cases ls) (auto simp: start_def split: prod.splits option.splits)

text \<open>
  Claim C9, as amended. \<open>start\<close> checks that its \<open>layers\<close> argument is an array. For every
  argument that is not an array it fails before anything is bound: in
  \<open>unnamed/part_000\<close> with the \<open>TypeError\<close> \<open>Service layers must be an array\<close>, in
  \<open>lib/app.js\<close> with the \<open>AssertionError\<close> \<open>layers must be an array\<close>. The empty list passes
  the check: \<open>start\<close> resolves with the backbone as it was created, no service bound.
\<close>

theorem start_validates_array_only:
  "((\<forall>xs. v \<noteq> JArr xs) \<longrightarrow>
      start (NotArray v) log = (Some (TypeError ''Service layers must be an array''), new_App)
      \<and> lib_start fresh body (NotArray v)
          = (Some (AssertionError ''layers must be an array''), fresh))
   \<and> start (Layers []) log = (None, new_App)
   \<and> lib_start fresh body (Layers []) = (None, fresh)"
  by (cases v) (simp_all add: start_def lib_start_def)

theorem start_validates_array_only_witness:
  "start (NotArray (JObj [(''settings'', demo_settings)])) demo_logger
     = (Some (TypeError ''Service layers must be an array''), new_App)
   \<and> lib_start new_App (\<lambda>a. run_layer demo_logger a 0)
        (NotArray (JObj [(''settings'', demo_settings)]))
     = (Some (AssertionError ''layers must be an array''), new_App)
   \<and> start (Layers []) demo_logger = (None, new_App)
   \<and> lib_start new_App (\<lambda>a. run_layer demo_logger a 0) (Layers []) = (None, new_App)"
  using start_validates_array_only [of "JObj [(''settings'', demo_settings)]" demo_logger
          new_App "\<lambda>a. run_layer demo_logger a 0"]
  by simp

text \<open>
  The elements of the array are not examined by the check. A number in the place of a
  layer has no keys: the body of the loop runs for it and binds nothing, and \<open>start\<close>
  goes on to the update of its loop.
\<close>

lemma start_takes_number_as_layer:
  "start (NotArray (JArr [JNum 5])) demo_logger
     = (Some (EngineReferenceError ''i''), new_App\<lparr>logged := [''Initializing layer 0...'']\<rparr>)"
  by (simp add: start_def run_layer_def debug_def demo_logger_def own_def entries_of_def
        new_App_def show_nat.simps)

text \<open>
  Claim C9 as stated fails at the empty list: \<open>start\<close> resolves with an empty backbone.
\<close>

theorem start_empty_layers_counterexample:
  "fst (start (Layers []) demo_logger) = None
   \<and> services (snd (start (Layers []) demo_logger)) = []"
  by (simp add: start_def new_App_def)

text \<open>
  Claim C1 does not hold of the code. With two layers of plain instances, \<open>start\<close> binds
  the first layer and then rejects with the \<open>ReferenceError\<close> of \<open>i++\<close>: the service of the
  second layer is never bound.
\<close>

theorem start_stops_after_first_layer:
  "fst (start (Layers [Mapping [(''settings'', Instance demo_settings)],
                       Mapping [(''db'', Instance (JObj []))]]) demo_logger)
     = Some (EngineReferenceError ''i'')
   \<and> services (snd (start (Layers [Mapping [(''settings'', Instance demo_settings)],
                                    Mapping [(''db'', Instance (JObj []))]]) demo_logger))
     = [(''settings'', demo_settings)]"
  by code_simp

text \<open>
  What \<open>readArgNames\<close> gives when it is handed the factory itself, and what resolving that
  name then throws: the error the test suite expects.
\<close>

lemma readArgNames_of_db_source:
  "readArgNames (JFun (''function db( settings ) {'' @ [CHR 0x0A] @
              ''    return { getMessage: () => settings.message }'' @ [CHR 0x0A] @ ''}'')) name
     = Inr [''settings'']"
  by code_simp

lemma resolve_settings_unbound:
  "resolve_args new_App ''db'' [''settings'']
     = Inl (Error (''Unresolved dependency: '' @ quote ''settings'' @ '' for '' @ quote ''db''))"
  by (simp add: new_App_def service_at_def inherited_def own_def object_prototype_def)

lemma load_db_factory:
  "load ''db'' (db_factory body) a = (Inl (EngineReferenceError ''fns''), a)"
  by (simp add: load_def db_factory_def is_function_def readArgNames_def toString_def
        nullish_def match_arglist_def open_paren_def is_space_def)

text \<open>
  Claim C3 does not hold of the code. For the single layer \<open>{ db }\<close> of the test suite,
  whose factory needs the unbound \<open>settings\<close>, \<open>start\<close> rejects with the \<open>ReferenceError\<close>
  of \<open>fns\<close>, not with \<open>Unresolved dependency: 'settings' for 'db'\<close>: \<open>load\<close> hands
  \<open>readArgNames\<close> the service name where the function is expected.
\<close>

theorem missing_dependency_raises_reference_error:
  "fst (start (Layers [Mapping [(''db'', db_factory body)]]) demo_logger)
     = Some (EngineReferenceError ''fns'')"
  by (simp add: start_def run_layer_def debug_def demo_logger_def own_def entries_of_def
        load_db_factory)

section \<open>Properties of message calls\<close>

lemma digit_nth: "d < 10 \<Longrightarrow> digit_of (''0123456789'' ! d) = Some d"
proof -
  assume "d < 10"
  then have "d = 0 \<or> d = 1 \<or> d = 2 \<or> d = 3 \<or> d = 4 \<or> d = 5 \<or> d = 6 \<or> d = 7
               \<or> d = 8 \<or> d = 9"
    by arith
  then show ?thesis
    by (elim disjE) (simp_all add: digit_of_def)
qed

lemma digit_nth_mem: "d < 10 \<Longrightarrow> ''0123456789'' ! d \<in> set ''0123456789''"
  by (rule nth_mem) simp

lemma decimal_append:
  "decimal acc (xs @ ys) = (case decimal acc xs of None \<Rightarrow> None | Some v \<Rightarrow> decimal v ys)"
  by (induction xs arbitrary: acc) (auto split: option.splits)

lemma decimal_show_nat: "decimal 0 (show_nat n) = Some n"
proof (induction n rule: show_nat.induct)
  case (1 n)
  show ?case
  proof (cases "n < 10")
    case True
    then show ?thesis by (subst show_nat.simps) (simp add: digit_nth)
  next
    case False
    then have "decimal 0 (show_nat (n div 10)) = Some (n div 10)" by (rule 1)
    with False show ?thesis
      by (subst show_nat.simps) (simp add: decimal_append digit_nth)
  qed
qed

lemma show_nat_inj:
  assumes "show_nat a = show_nat b"
  shows "a = b"
proof -
  have "Some a = decimal 0 (show_nat a)" by (simp only: decimal_show_nat)
  also have "\<dots> = decimal 0 (show_nat b)" by (simp only: assms)
  also have "\<dots> = Some b" by (simp only: decimal_show_nat)
  finally show ?thesis by simp
qed

lemma show_nat_digits: "set (show_nat n) \<subseteq> set ''0123456789''"
proof (induction n rule: show_nat.induct)
  case (1 n)
  show ?case
  proof (cases "n < 10")
    case True
    then show ?thesis
      using digit_nth_mem [of n] by (subst show_nat.simps) simp
  next
    case False
    then have "set (show_nat (n div 10)) \<subseteq> set ''0123456789''" by (rule 1)
    then show ?thesis
      using False digit_nth_mem [of "n mod 10"] by (subst show_nat.simps) simp
  qed
qed

lemma show_nat_no_dot: "CHR ''.'' \<notin> set (show_nat n)"
  using show_nat_digits [of n] by auto

lemma counter_of_call_id:
  "takeWhile (\<lambda>c. c \<noteq> CHR ''.'') (rev (call_id name k)) = rev (show_nat k)"
proof -
  have "rev (call_id name k) = rev (show_nat k) @ CHR ''.'' # rev name"
    by (simp add: call_id_def)
  moreover have "\<forall>c \<in> set (rev (show_nat k)). c \<noteq> CHR ''.''"
    using show_nat_no_dot [of k] by auto
  ultimately show ?thesis
    by (simp add: takeWhile_tail takeWhile_eq_all_conv)
qed

lemma call_id_inj: "call_id name k = call_id name' k' \<Longrightarrow> k = k'"
proof -
  assume "call_id name k = call_id name' k'"
  then have "rev (show_nat k) = rev (show_nat k')"
    using counter_of_call_id [of name k] counter_of_call_id [of name' k'] by (simp only:)
  then have "show_nat k = show_nat k'" by (simp only: rev_is_rev_conv)
  then show ?thesis by (rule show_nat_inj)
qed

lemma length_settle [simp]: "length (settle q st ps) = length ps"
  by (simp add: settle_def)

lemma nth_settle_other: "q \<noteq> p \<Longrightarrow> settle q st ps ! p = ps ! p"
  by (simp add: settle_def)

lemma nth_settle_settled: "ps ! p \<noteq> Pending \<Longrightarrow> settle q st ps ! p = ps ! p"
  by (cases "q = p") (simp_all add: settle_def)

lemma nth_settle_pending: "p < length ps \<Longrightarrow> ps ! p = Pending \<Longrightarrow> settle p st ps ! p = st"
  by (simp add: settle_def)

lemma settled_step:
  assumes "p < length (promises c)" and "promises c ! p \<noteq> Pending"
  shows "p < length (promises (step c ev)) \<and> promises (step c ev) ! p = promises c ! p"
proof (cases ev)
  case (Call name args)
  with assms show ?thesis by (simp add: call_def Let_def nth_append)
next
  case (Response data)
  with assms show ?thesis
    by (auto simp: resolve_def deliver_def clear_def nth_settle_settled
          split: sum.splits option.splits prod.splits)
next
  case (ErrorResponse data)
  with assms show ?thesis
    by (auto simp: reject_def deliver_def clear_def nth_settle_settled
          split: sum.splits option.splits prod.splits)
next
  case (Timeout t)
  with assms show ?thesis
    by (auto simp: fire_def nth_settle_settled split: option.splits prod.splits)
qed

lemma settled_run:
  assumes "p < length (promises c)" and "promises c ! p \<noteq> Pending"
  shows "promises (run c evs) ! p = promises c ! p"
  using assms
proof (induction evs arbitrary: c)
  case Nil
  show ?case by (simp add: run_def)
next
  case (Cons ev evs)
  from settled_step [OF Cons.prems, of ev]
  have 1: "p < length (promises (step c ev))" and 2: "promises (step c ev) ! p = promises c ! p"
    by simp_all
  from 2 Cons.prems(2) have "promises (step c ev) ! p \<noteq> Pending" by simp
  with 1 have "promises (run (step c ev) evs) ! p = promises (step c ev) ! p"
    by (rule Cons.IH)
  with 2 show ?case by (simp add: run_def)
qed

lemma deliver_other:
  assumes "outstanding name k p t c" and "\<not> carries (call_id name k) data"
  shows "outstanding name k p t (snd (deliver outcome c data))"
proof (cases "get data ''id''")
  case (Inl e)
  with assms(1) show ?thesis by (simp add: deliver_def)
next
  case (Inr v)
  with assms(2) have key: "to_key v \<noteq> call_id name k" by (simp add: carries_def)
  show ?thesis
  proof (cases "get data ''message''")
    case (Inl e)
    with Inr assms(1) show ?thesis by (simp add: deliver_def)
  next
    case msg: (Inr m)
    show ?thesis
    proof (cases "pendings c (to_key v)")
      case None
      with Inr msg assms(1) show ?thesis by (simp add: deliver_def clear_def)
    next
      case (Some q)
      obtain p' t' where q: "q = (p', t')" by (cases q)
      from assms(1) Some key q have ne: "p' \<noteq> p" "t' \<noteq> t"
        by (auto simp: outstanding_def)
      have "snd (deliver outcome c data)
              = c\<lparr>pendings := (pendings c)(to_key v := None),
                   timers := (timers c)(t' := None),
                   promises := settle p' (outcome m) (promises c)\<rparr>"
        using Inr msg Some q by (simp add: deliver_def clear_def)
      with assms(1) key ne show ?thesis
        by (auto simp: outstanding_def nth_settle_other split: if_splits)
    qed
  qed
qed

lemma fire_other:
  assumes "outstanding name k p t c" and "t' \<noteq> t"
  shows "outstanding name k p t (fire c t')"
proof (cases "timers c t'")
  case None
  with assms(1) show ?thesis by (simp add: fire_def)
next
  case (Some q)
  obtain p' cid where q: "q = (p', cid)" by (cases q)
  from assms(1) have "\<forall>t' q. timers c t' = Some q \<and> t' \<noteq> t \<longrightarrow> fst q \<noteq> p"
    by (simp add: outstanding_def)
  with Some assms(2) have "fst q \<noteq> p" by blast
  with q have ne: "p' \<noteq> p" by simp
  have "fire c t' = c\<lparr>timers := (timers c)(t' := None),
                         promises := settle p' (Rejected (timeout_error cid)) (promises c)\<rparr>"
    using Some q by (simp add: fire_def)
  with assms ne show ?thesis
    by (auto simp: outstanding_def nth_settle_other split: if_splits)
qed

lemma call_other:
  assumes "outstanding name k p t c"
  shows "outstanding name k p t (snd (call c name' args))"
proof -
  from assms have "k \<noteq> midx c" by (simp add: outstanding_def)
  then have "call_id name' (midx c) \<noteq> call_id name k"
    using call_id_inj [of name' "midx c" name k] by auto
  with assms show ?thesis
    by (auto simp: call_def Let_def outstanding_def nth_append)
qed

lemma outstanding_step:
  assumes "outstanding name k p t c" and "\<not> concerns (call_id name k) t ev"
  shows "outstanding name k p t (step c ev)"
proof (cases ev)
  case (Call name' args)
  with assms(1) show ?thesis by (simp add: call_other)
next
  case (Response data)
  with assms show ?thesis by (simp add: concerns_def resolve_def deliver_other)
next
  case (ErrorResponse data)
  with assms show ?thesis by (simp add: concerns_def reject_def deliver_other)
next
  case (Timeout t')
  with assms show ?thesis by (simp add: concerns_def fire_other)
qed

lemma deliver_matching:
  assumes "outstanding name k p t c" and "carries (call_id name k) data"
  shows "p < length (promises (snd (deliver outcome c data)))
       \<and> promises (snd (deliver outcome c data)) ! p = outcome (message_of data)"
proof -
  from assms(2) obtain v where v: "get data ''id'' = Inr v" and key: "to_key v = call_id name k"
    by (auto simp: carries_def split: sum.splits)
  from v obtain m where m: "get data ''message'' = Inr m"
    by (cases data) auto
  from assms(1) have "pendings c (call_id name k) = Some (p, t)"
    and "p < length (promises c)" and "promises c ! p = Pending"
    by (simp_all add: outstanding_def)
  then show ?thesis
    using v key m by (simp add: deliver_def clear_def message_of_def nth_settle_pending)
qed

lemma fire_matching:
  assumes "outstanding name k p t c"
  shows "p < length (promises (fire c t))
       \<and> promises (fire c t) ! p = Rejected (timeout_error (call_id name k))"
  using assms by (simp add: outstanding_def fire_def nth_settle_pending)

lemma outstanding_run:
  assumes "outstanding name k p t c"
  shows "promises (run c evs) ! p = first_outcome (call_id name k) t evs"
  using assms
proof (induction evs arbitrary: c)
  case Nil
  then show ?case by (simp add: run_def outstanding_def)
next
  case (Cons ev evs)
  show ?case
  proof (cases "concerns (call_id name k) t ev")
    case False
    with Cons.prems have "outstanding name k p t (step c ev)" by (rule outstanding_step)
    then have "promises (run (step c ev) evs) ! p = first_outcome (call_id name k) t evs"
      by (rule Cons.IH)
    with False show ?thesis
      by (cases ev) (simp_all add: run_def concerns_def)
  next
    case True
    have settled: "p < length (promises (step c ev))
        \<and> promises (step c ev) ! p = first_outcome (call_id name k) t (ev # evs)
        \<and> first_outcome (call_id name k) t (ev # evs) \<noteq> Pending"
    proof (cases ev)
      case (Call name' args)
      with True show ?thesis by (simp add: concerns_def)
    next
      case (Response data)
      with True Cons.prems show ?thesis
        using deliver_matching [of name k p t c data Fulfilled]
        by (simp add: concerns_def resolve_def)
    next
      case (ErrorResponse data)
      with True Cons.prems show ?thesis
        using deliver_matching [of name k p t c data Rejected]
        by (simp add: concerns_def reject_def)
    next
      case (Timeout t')
      with True Cons.prems show ?thesis
        using fire_matching [of name k p t c] by (simp add: concerns_def)
    qed
    then have "promises (run (step c ev) evs) ! p = promises (step c ev) ! p"
      by (intro settled_run) simp_all
    with settled show ?thesis by (simp add: run_def)
  qed
qed

lemma consistent_new [simp]: "consistent new_Client"
  by (simp add: consistent_def new_Client_def)

lemma consistent_step: "consistent c \<Longrightarrow> consistent (step c ev)"
proof (cases ev)
  case (Call name args)
  assume "consistent c"
  with Call show ?thesis
    by (auto simp: consistent_def call_def Let_def less_Suc_eq split: if_splits)
next
  case (Response data)
  assume "consistent c"
  with Response show ?thesis
    by (auto simp: consistent_def resolve_def deliver_def clear_def
          split: sum.splits option.splits prod.splits if_splits)
next
  case (ErrorResponse data)
  assume "consistent c"
  with ErrorResponse show ?thesis
    by (auto simp: consistent_def reject_def deliver_def clear_def
          split: sum.splits option.splits prod.splits if_splits)
next
  case (Timeout t)
  assume "consistent c"
  with Timeout show ?thesis
    by (auto simp: consistent_def fire_def split: option.splits prod.splits if_splits)
qed

lemma consistent_run: "consistent c \<Longrightarrow> consistent (run c evs)"
  by (induction evs arbitrary: c) (simp_all add: run_def consistent_step)

lemma call_outstanding:
  assumes "consistent c"
  shows "outstanding name (midx c) (length (promises c)) (next_timer c) (snd (call c name args))"
  using assms
  by (fastforce simp: consistent_def outstanding_def call_def Let_def nth_append split: if_splits)

text \<open>
  Claim C2. Take a client in any state it can reach, issue a message call, and let any
  events follow: further calls, responses and errors for any id, expiries of any timer.
  The promise the call returned is pending until the first event that concerns the call
  and is from then on settled by that event alone: fulfilled with the payload of a
  response carrying the call's id, rejected with the text of an error carrying it, or
  rejected with the timeout error when the call's timer expires first. Whatever concerns
  the call later leaves the promise as it is.
\<close>

theorem call_completed_by_first_outcome:
  "promises (run (snd (call (run new_Client history) name args)) evs)
     ! fst (call (run new_Client history) name args)
   = first_outcome (call_id name (midx (run new_Client history)))
       (next_timer (run new_Client history)) evs"
proof -
  let ?c = "run new_Client history"
  have "consistent ?c" by (simp add: consistent_run)
  then have "outstanding name (midx ?c) (length (promises ?c)) (next_timer ?c)
               (snd (call ?c name args))"
    by (rule call_outstanding)
  then have "promises (run (snd (call ?c name args)) evs) ! length (promises ?c)
               = first_outcome (call_id name (midx ?c)) (next_timer ?c) evs"
    by (rule outstanding_run)
  then show ?thesis by (simp add: call_def Let_def)
qed

text \<open>
  Claim C4 does not hold of the code. When the timer of a call expires, the promise is
  rejected but the entry stays in \<open>pendings\<close>; it is a late response that removes it. A
  response that arrives in time removes the entry, as claimed.
\<close>

theorem timeout_leaves_pending_entry:
  "pendings (run new_Client [Call ''getMessage'' [], Timeout 0]) ''getMessage.0'' = Some (0, 0)
   \<and> promises (run new_Client [Call ''getMessage'' [], Timeout 0]) ! 0
       = Rejected (timeout_error ''getMessage.0'')
   \<and> pendings (run new_Client [Call ''getMessage'' [], Timeout 0, Response hello_response])
        ''getMessage.0'' = None
   \<and> pendings (run new_Client [Call ''getMessage'' [], Response hello_response])
        ''getMessage.0'' = None"
  by (simp add: run_def new_Client_def call_def call_id_def show_nat.simps fire_def settle_def
        resolve_def deliver_def clear_def hello_response_def own_def Let_def)

section \<open>Properties of the message listener of the server\<close>






text \<open>
  The same happens for a failure with no truthy \<open>description\<close> or \<open>message\<close> whose
  \<open>toString\<close> cannot be called, such as \<open>{toString: 5}\<close>: the call \<open>err.toString()\<close> throws
  inside the \<open>catch\<close> block.
\<close>

lemma unconvertible_failure_not_reported:
  "on_message builtin ''getMessage'' (\<lambda>args. Inl (JObj [(''toString'', JNum 5)])) demo_call 3
     = Inl EngineTypeError"
  by (simp add: on_message_def demo_call_def own_def error_message_def call_toString_def
        nullish_def listed_def)

end

